theory Spec2Isabelle
  imports Complex_Main "HOL-Library.Stream"
begin

section \<open>JavaScript numbers\<close>

text \<open>
  A JavaScript number is an IEEE double. The model keeps the three special values that
  the arithmetic of \<^verbatim>\<open>script.js\<close> can produce (\<^verbatim>\<open>Infinity\<close>, \<^verbatim>\<open>-Infinity\<close>, \<^verbatim>\<open>NaN\<close>) and
  idealises every finite double as a real number: rounding is not modelled, and there is a
  single zero, read as \<^verbatim>\<open>+0\<close>. The operators below follow ECMAScript on that carrier.
\<close>

datatype jsnum = Fin real | PInf | NInf | NaN

fun jneg :: "jsnum \<Rightarrow> jsnum" where
  "jneg (Fin a) = Fin (- a)"
| "jneg PInf = NInf"
| "jneg NInf = PInf"
| "jneg NaN = NaN"

fun jadd :: "jsnum \<Rightarrow> jsnum \<Rightarrow> jsnum" where
  "jadd (Fin a) (Fin b) = Fin (a + b)"
| "jadd NaN _ = NaN"
| "jadd _ NaN = NaN"
| "jadd PInf NInf = NaN"
| "jadd NInf PInf = NaN"
| "jadd PInf _ = PInf"
| "jadd NInf _ = NInf"
| "jadd _ PInf = PInf"
| "jadd _ NInf = NInf"

definition jsub :: "jsnum \<Rightarrow> jsnum \<Rightarrow> jsnum" where
  "jsub a b = jadd a (jneg b)"

fun jmul :: "jsnum \<Rightarrow> jsnum \<Rightarrow> jsnum" where
  "jmul (Fin a) (Fin b) = Fin (a * b)"
| "jmul NaN _ = NaN"
| "jmul _ NaN = NaN"
| "jmul (Fin a) PInf = (if a = 0 then NaN else if 0 < a then PInf else NInf)"
| "jmul (Fin a) NInf = (if a = 0 then NaN else if 0 < a then NInf else PInf)"
| "jmul PInf (Fin b) = (if b = 0 then NaN else if 0 < b then PInf else NInf)"
| "jmul NInf (Fin b) = (if b = 0 then NaN else if 0 < b then NInf else PInf)"
| "jmul PInf PInf = PInf"
| "jmul PInf NInf = NInf"
| "jmul NInf PInf = NInf"
| "jmul NInf NInf = PInf"

text \<open>Division: a non-zero number over zero is an infinity, zero over zero is \<^verbatim>\<open>NaN\<close>.\<close>

fun jdiv :: "jsnum \<Rightarrow> jsnum \<Rightarrow> jsnum" where
  "jdiv (Fin a) (Fin b) =
     (if b \<noteq> 0 then Fin (a / b) else if a = 0 then NaN else if 0 < a then PInf else NInf)"
| "jdiv NaN _ = NaN"
| "jdiv _ NaN = NaN"
| "jdiv (Fin a) PInf = Fin 0"
| "jdiv (Fin a) NInf = Fin 0"
| "jdiv PInf (Fin b) = (if 0 \<le> b then PInf else NInf)"
| "jdiv NInf (Fin b) = (if 0 \<le> b then NInf else PInf)"
| "jdiv PInf PInf = NaN"
| "jdiv PInf NInf = NaN"
| "jdiv NInf PInf = NaN"
| "jdiv NInf NInf = NaN"

definition trunc :: "real \<Rightarrow> int" where
  "trunc a = (if 0 \<le> a then \<lfloor>a\<rfloor> else \<lceil>a\<rceil>)"

text \<open>
  The remainder operator \<^verbatim>\<open>%\<close>: the quotient is truncated towards zero, so the result has
  the sign of the dividend.
\<close>

fun jmod :: "jsnum \<Rightarrow> jsnum \<Rightarrow> jsnum" where
  "jmod (Fin a) (Fin b) = (if b = 0 then NaN else Fin (a - b * of_int (trunc (a / b))))"
| "jmod (Fin a) PInf = Fin a"
| "jmod (Fin a) NInf = Fin a"
| "jmod _ _ = NaN"

fun jlt :: "jsnum \<Rightarrow> jsnum \<Rightarrow> bool" where
  "jlt (Fin a) (Fin b) = (a < b)"
| "jlt NaN _ = False"
| "jlt _ NaN = False"
| "jlt _ NInf = False"
| "jlt PInf _ = False"
| "jlt NInf _ = True"
| "jlt _ PInf = True"

definition jle :: "jsnum \<Rightarrow> jsnum \<Rightarrow> bool" where
  "jle a b = (jlt a b \<or> (a = b \<and> a \<noteq> NaN))"

definition jgt :: "jsnum \<Rightarrow> jsnum \<Rightarrow> bool" where
  "jgt a b = jlt b a"

definition jge :: "jsnum \<Rightarrow> jsnum \<Rightarrow> bool" where
  "jge a b = jle b a"

fun jfloor :: "jsnum \<Rightarrow> jsnum" where
  "jfloor (Fin a) = Fin (of_int \<lfloor>a\<rfloor>)"
| "jfloor v = v"

definition jmin :: "jsnum \<Rightarrow> jsnum \<Rightarrow> jsnum" where
  "jmin a b = (if a = NaN \<or> b = NaN then NaN else if jlt b a then b else a)"

definition jmax :: "jsnum \<Rightarrow> jsnum \<Rightarrow> jsnum" where
  "jmax a b = (if a = NaN \<or> b = NaN then NaN else if jlt a b then b else a)"

text \<open>p5's \<^verbatim>\<open>constrain(n, low, high)\<close> is \<^verbatim>\<open>Math.max(Math.min(n, high), low)\<close>.\<close>

definition constrain :: "jsnum \<Rightarrow> jsnum \<Rightarrow> jsnum \<Rightarrow> jsnum" where
  "constrain n low high = jmax (jmin n high) low"

fun jcos :: "jsnum \<Rightarrow> jsnum" where
  "jcos (Fin a) = Fin (cos a)"
| "jcos _ = NaN"

fun jsin :: "jsnum \<Rightarrow> jsnum" where
  "jsin (Fin a) = Fin (sin a)"
| "jsin _ = NaN"

text \<open>The exponentiation operator \<^verbatim>\<open>**\<close>, for the natural exponents the sketch uses.\<close>

fun jpow :: "jsnum \<Rightarrow> nat \<Rightarrow> jsnum" where
  "jpow (Fin a) n = Fin (a ^ n)"
| "jpow PInf n = (if n = 0 then Fin 1 else PInf)"
| "jpow NInf n = (if n = 0 then Fin 1 else if odd n then NInf else PInf)"
| "jpow NaN n = (if n = 0 then Fin 1 else NaN)"

text \<open>\<^verbatim>\<open>Math.hypot\<close>: an infinite argument wins over \<^verbatim>\<open>NaN\<close>.\<close>

fun hypot :: "jsnum \<Rightarrow> jsnum \<Rightarrow> jsnum" where
  "hypot (Fin a) (Fin b) = Fin (sqrt (a * a + b * b))"
| "hypot PInf _ = PInf"
| "hypot NInf _ = PInf"
| "hypot _ PInf = PInf"
| "hypot _ NInf = PInf"
| "hypot _ _ = NaN"

fun atan2 :: "jsnum \<Rightarrow> jsnum \<Rightarrow> jsnum" where
  "atan2 (Fin b) (Fin a) =
     (if 0 < a then Fin (arctan (b / a))
      else if a < 0 then (if 0 \<le> b then Fin (arctan (b / a) + pi) else Fin (arctan (b / a) - pi))
      else if 0 < b then Fin (pi / 2) else if b < 0 then Fin (- pi / 2) else Fin 0)"
| "atan2 NaN _ = NaN"
| "atan2 _ NaN = NaN"
| "atan2 (Fin b) PInf = Fin 0"
| "atan2 (Fin b) NInf = (if 0 \<le> b then Fin pi else Fin (- pi))"
| "atan2 PInf (Fin a) = Fin (pi / 2)"
| "atan2 NInf (Fin a) = Fin (- pi / 2)"
| "atan2 PInf PInf = Fin (pi / 4)"
| "atan2 PInf NInf = Fin (3 * pi / 4)"
| "atan2 NInf PInf = Fin (- pi / 4)"
| "atan2 NInf NInf = Fin (- 3 * pi / 4)"

definition PI :: jsnum where
  "PI = Fin pi"

definition TAU :: jsnum where
  "TAU = Fin (2 * pi)"


section \<open>The random source\<close>

text \<open>
  \<^verbatim>\<open>Math.random\<close> is the only source of randomness. It is modelled as the stream of the
  values it will return, each a real in \<open>[0, 1)\<close> (\<open>valid_rng\<close>); a call takes the head
  and leaves the tail. The three call shapes of p5's \<^verbatim>\<open>random\<close> are
  \<^verbatim>\<open>random()\<close> = \<^verbatim>\<open>rand\<close>, \<^verbatim>\<open>random(m)\<close> = \<^verbatim>\<open>rand * m\<close> and
  \<^verbatim>\<open>random(lo, hi)\<close> = \<^verbatim>\<open>rand * (hi - lo) + lo\<close>, the bounds swapped first when
  \<^verbatim>\<open>lo > hi\<close>.
\<close>

type_synonym rng = "real stream"

definition valid_rng :: "rng \<Rightarrow> bool" where
  "valid_rng g = (\<forall>u \<in> sset g. 0 \<le> u \<and> u < 1)"

definition random0 :: "rng \<Rightarrow> jsnum \<times> rng" where
  "random0 g = (Fin (shd g), stl g)"

definition random1 :: "rng \<Rightarrow> jsnum \<Rightarrow> jsnum \<times> rng" where
  "random1 g m = (jmul (Fin (shd g)) m, stl g)"

definition random2 :: "rng \<Rightarrow> jsnum \<Rightarrow> jsnum \<Rightarrow> jsnum \<times> rng" where
  "random2 g lo hi =
     (let (lo', hi') = (if jgt lo hi then (hi, lo) else (lo, hi))
      in (jadd (jmul (Fin (shd g)) (jsub hi' lo')) lo', stl g))"

text \<open>
  \<^verbatim>\<open>let rInt = (b, a=0) => floor(random(min(a, b), max(a, b)))\<close>. Both bounds are integers
  at every call site, so the operands are finite and the floor is an integer; it is kept
  as an \<open>int\<close> because the sketch uses it as a loop bound and as an array index
  (\<open>rInt_random2\<close> below relates it to \<open>random2\<close>).
\<close>

definition rInt :: "rng \<Rightarrow> int \<Rightarrow> int \<Rightarrow> int \<times> rng" where
  "rInt g b a =
     (let lo = min a b; hi = max a b
      in (\<lfloor>shd g * (real_of_int hi - real_of_int lo) + real_of_int lo\<rfloor>, stl g))"

section \<open>The scene\<close>

type_synonym hsb = "jsnum \<times> jsnum \<times> jsnum"

text \<open>
  A planet's \<^verbatim>\<open>target\<close> is a reference to the \<^verbatim>\<open>center\<close> object or to an element of the
  \<^verbatim>\<open>planets\<close> array. The array only grows by \<^verbatim>\<open>push\<close> and its elements are mutated in
  place, so the reference is modelled by the element's index.
\<close>

datatype target = Center | Planet nat

datatype error = TypeError

text \<open>
  \<^verbatim>\<open>spaceObject\<close> builds arcs and planets alike; a field the caller leaves out is
  \<^verbatim>\<open>undefined\<close>, here \<open>None\<close>. The fields \<^verbatim>\<open>x\<close> and \<^verbatim>\<open>y\<close> do not exist until \<^verbatim>\<open>draw\<close>
  assigns them.
\<close>

record spaceObject =
  o_col :: "hsb option"
  o_hue :: "jsnum option"
  o_len :: jsnum
  o_angle :: jsnum
  o_radius :: jsnum
  o_speed :: jsnum
  o_target :: "target option"
  o_isPlanet :: bool
  o_x :: "jsnum option"
  o_y :: "jsnum option"

record center_obj =
  c_x :: jsnum
  c_y :: jsnum
  c_radius :: jsnum
  c_len :: jsnum

record star =
  s_x :: jsnum
  s_y :: jsnum
  s_size :: jsnum
  s_hue :: jsnum
  s_sat :: jsnum
  s_idx :: jsnum
  s_speed :: jsnum

text \<open>The globals that \<^verbatim>\<open>init\<close> assigns on \<^verbatim>\<open>window\<close>.\<close>

record scene =
  arcs :: "spaceObject list"
  planets :: "spaceObject list"
  stars :: "star list"
  numCircles :: int
  radius :: jsnum
  arcSize :: jsnum
  center :: center_obj
  baseHue :: jsnum
  hueRange :: jsnum

definition numArcs :: nat where
  "numArcs = 2000"

definition zoomScale :: jsnum where
  "zoomScale = Fin 3"

text \<open>
  \<^verbatim>\<open>colorMap = (amt, hueShift=0) => [(baseHue+amt*hueRange+hueShift)%1, amt, 1-amt]\<close>;
  a call that omits \<^verbatim>\<open>hueShift\<close> passes \<open>Fin 0\<close>.
\<close>

definition colorMap :: "scene \<Rightarrow> jsnum \<Rightarrow> jsnum \<Rightarrow> hsb" where
  "colorMap s amt hueShift =
     (jmod (jadd (jadd (baseHue s) (jmul amt (hueRange s))) hueShift) (Fin 1),
      amt,
      jsub (Fin 1) amt)"

section \<open>The scene generator\<close>

text \<open>One iteration of the arc loop (lines 99 to 109).\<close>

definition gen_arc :: "scene \<Rightarrow> jsnum \<Rightarrow> rng \<Rightarrow> spaceObject \<times> rng" where
  "gen_arc s variance g =
     (let (bucket, g1) = rInt g (numCircles s) 0;
          (noise, g2) = random2 g1 (jneg variance) variance;
          amt = jadd (jdiv (Fin (of_int bucket)) (Fin (of_int (numCircles s)))) noise;
          amt = constrain amt (Fin 0) (Fin 1);
          colv = colorMap s amt (Fin 0);
          (u, g3) = random0 g2;
          (lenv, g4) = (if jlt u (Fin (2 / 10))
                        then (jdiv (Fin 1) (jmul TAU (Fin (of_int bucket))), g3)
                        else random1 g3 (jdiv PI (Fin 2)));
          (anglev, g5) = random1 g4 TAU;
          (mag, g6) = random2 g5 (Fin 0) (Fin (3 / 10));
          (v, g7) = random0 g6;
          speedv = jmul (jmul mag (if jlt v (Fin (5 / 10)) then Fin 1 else Fin (- 1)))
                     (Fin (2 / 100))
      in (\<lparr>o_col = Some colv, o_hue = None, o_len = lenv, o_angle = anglev,
           o_radius = jmul (Fin (of_int bucket)) (arcSize s), o_speed = speedv,
           o_target = None, o_isPlanet = False, o_x = None, o_y = None\<rparr>, g7))"

function arcs_gen :: "nat \<Rightarrow> scene \<Rightarrow> jsnum \<Rightarrow> rng \<Rightarrow> scene \<times> rng" where
  "arcs_gen i s variance g =
     (if i < numArcs
      then (let (a, g') = gen_arc s variance g
            in arcs_gen (Suc i) (s\<lparr>arcs := arcs s @ [a]\<rparr>) variance g')
      else (s, g))"
  by pat_completeness auto
termination
  by (relation "measure (\<lambda>(i, s, variance, g). numArcs - i)") auto

text \<open>
  \<^verbatim>\<open>arcs.sort((a, b) => b.len-a.len)\<close>. ECMAScript reads a comparator value of \<^verbatim>\<open>NaN\<close>
  (here: two lengths that are both \<^verbatim>\<open>Infinity\<close>) as \<^verbatim>\<open>+0\<close>. Read so, the comparator orders
  lengths that are not \<^verbatim>\<open>NaN\<close> consistently (\<open>cmp_len_pos\<close> below), and the result of the
  sort is then fixed: the stable sorted permutation, computed here by insertion. A
  comparator value that is not greater than zero, \<^verbatim>\<open>NaN\<close> included, leaves the left element
  first.
\<close>

definition cmp_len :: "spaceObject \<Rightarrow> spaceObject \<Rightarrow> jsnum" where
  "cmp_len a b = jsub (o_len b) (o_len a)"

fun insert_by :: "('a \<Rightarrow> 'a \<Rightarrow> jsnum) \<Rightarrow> 'a \<Rightarrow> 'a list \<Rightarrow> 'a list" where
  "insert_by cmp v [] = [v]"
| "insert_by cmp v (w # ws) =
     (if jgt (cmp v w) (Fin 0) then w # insert_by cmp v ws else v # w # ws)"

fun sort_js :: "('a \<Rightarrow> 'a \<Rightarrow> jsnum) \<Rightarrow> 'a list \<Rightarrow> 'a list" where
  "sort_js cmp [] = []"
| "sort_js cmp (v # vs) = insert_by cmp v (sort_js cmp vs)"

text \<open>
  Reading \<^verbatim>\<open>.len\<close> of a target. \<^verbatim>\<open>planets[k]\<close> outside the array is \<^verbatim>\<open>undefined\<close>, and a
  property read on \<^verbatim>\<open>undefined\<close> throws.
\<close>

definition index_planet :: "scene \<Rightarrow> int \<Rightarrow> target option" where
  "index_planet s k = (if 0 \<le> k \<and> nat k < length (planets s) then Some (Planet (nat k)) else None)"

definition target_len :: "scene \<Rightarrow> target option \<Rightarrow> error + jsnum" where
  "target_len s t =
     (case t of
        None \<Rightarrow> Inl TypeError
      | Some Center \<Rightarrow> Inr (c_len (center s))
      | Some (Planet k) \<Rightarrow>
          (if k < length (planets s) then Inr (o_len (planets s ! k)) else Inl TypeError))"

text \<open>One iteration of the planet loop (lines 116 to 126).\<close>

definition gen_planet :: "nat \<Rightarrow> int \<Rightarrow> scene \<Rightarrow> rng \<Rightarrow> error + (spaceObject \<times> rng)" where
  "gen_planet i numPlanets s g =
     (let (targetCenter, g1) =
            (if 0 < length (planets s)
             then (let (u, g') = random0 g in (jlt u (Fin (5 / 10)), g'))
             else (False, g));
          (tgt, g2) =
            (if targetCenter
             then (let (k, g') = rInt g1 0 (int (length (planets s))) in (index_planet s k, g'))
             else (Some Center, g1));
          (f, g3) = random2 g2 (Fin (5 / 10)) (Fin (7 / 10))
      in case target_len s tgt of
           Inl e \<Rightarrow> Inl e
         | Inr tlen \<Rightarrow>
             (let lenv = jmul f tlen;
                  (h, g4) = random2 g3 (Fin (- (15 / 100))) (Fin (15 / 100));
                  (anglev, g5) = random1 g4 TAU;
                  (radv, g6) =
                    (if targetCenter
                     then (let (q, g') = random1 g5 (jdiv tlen (Fin 4))
                           in (jadd q (jdiv (jadd lenv tlen) (Fin 2)), g'))
                     else (let (q, g') = random1 g5 (jdiv (radius s) (Fin (of_int numPlanets)))
                           in (jadd q (jmul (radius s)
                                 (jadd (jmul (jdiv (Fin (of_nat i)) (Fin (of_int numPlanets)))
                                          (Fin (7 / 10)))
                                       (Fin (3 / 10)))), g')));
                  (mag, g7) = random2 g6 (Fin (2 / 10)) (Fin (5 / 10))
              in Inr (\<lparr>o_col = None, o_hue = Some h, o_len = lenv, o_angle = anglev,
                       o_radius = radv, o_speed = jmul mag (Fin (5 / 1000)),
                       o_target = tgt, o_isPlanet = True, o_x = None, o_y = None\<rparr>, g7)))"

function planets_gen :: "nat \<Rightarrow> int \<Rightarrow> scene \<Rightarrow> rng \<Rightarrow> error + (scene \<times> rng)" where
  "planets_gen i numPlanets s g =
     (if int i < numPlanets
      then (case gen_planet i numPlanets s g of
              Inl e \<Rightarrow> Inl e
            | Inr (p, g') \<Rightarrow> planets_gen (Suc i) numPlanets (s\<lparr>planets := planets s @ [p]\<rparr>) g')
      else Inr (s, g))"
  by pat_completeness auto
termination
  by (relation "measure (\<lambda>(i, numPlanets, s, g). nat (numPlanets - int i))") auto

definition gen_star :: "real \<Rightarrow> real \<Rightarrow> scene \<Rightarrow> rng \<Rightarrow> star \<times> rng" where
  "gen_star width height s g =
     (let (xv, g1) = random1 g (Fin width);
          (yv, g2) = random1 g1 (Fin height);
          (sz, g3) = random2 g2 (Fin 2) (Fin 5);
          (h, g4) = random2 g3 (Fin (- (2 / 10))) (Fin (2 / 10));
          (sa, g5) = random1 g4 (Fin (7 / 10));
          (ix, g6) = random1 g5 (Fin 10000000);
          (sp, g7) = random2 g6 (Fin (1 / 10)) (Fin (1 / 100))
      in (\<lparr>s_x = xv, s_y = yv, s_size = sz, s_hue = jadd h (baseHue s), s_sat = sa,
           s_idx = ix, s_speed = sp\<rparr>, g7))"

function stars_gen :: "nat \<Rightarrow> real \<Rightarrow> real \<Rightarrow> scene \<Rightarrow> rng \<Rightarrow> scene \<times> rng" where
  "stars_gen i width height s g =
     (if i < 1000
      then (let (st, g') = gen_star width height s g
            in stars_gen (Suc i) width height (s\<lparr>stars := stars s @ [st]\<rparr>) g')
      else (s, g))"
  by pat_completeness auto
termination
  by (relation "measure (\<lambda>(i, width, height, s, g). 1000 - i)") auto

text \<open>
  \<^verbatim>\<open>init\<close>, with the canvas size (p5's \<^verbatim>\<open>width\<close> and \<^verbatim>\<open>height\<close>, finite numbers) and the
  random source as inputs. Every global is assigned anew, so the result does not depend
  on an earlier scene. \<open>init_globals\<close> is lines 83 to 94: the empty collections, the
  layout constants and the palette.
\<close>

definition init_globals :: "real \<Rightarrow> real \<Rightarrow> rng \<Rightarrow> scene \<times> rng" where
  "init_globals width height g =
     (let (nc, g1) = rInt g 70 120;
          rad = jmul (jmin (Fin width) (Fin height)) (Fin (45 / 100));
          asz = jdiv rad (Fin (of_int nc));
          ctr = \<lparr>c_x = Fin 0, c_y = Fin 0, c_radius = rad, c_len = jdiv rad (Fin 2)\<rparr>;
          (bh, g2) = random0 g1;
          (hr, g3) = random2 g2 (Fin (2 / 10)) (Fin (7 / 10));
          (u, g4) = random0 g3
      in (\<lparr>arcs = [], planets = [], stars = [], numCircles = nc, radius = rad,
           arcSize = asz, center = ctr, baseHue = bh,
           hueRange = jmul hr (if jlt u (Fin (5 / 10)) then Fin (- 1) else Fin 1)\<rparr>, g4))"

definition init :: "real \<Rightarrow> real \<Rightarrow> rng \<Rightarrow> error + (scene \<times> rng)" where
  "init width height g =
     (let (s0, g4) = init_globals width height g;
          (variance, g5) = random2 g4 (Fin (5 / 100)) (Fin (4 / 10));
          (s1, g6) = arcs_gen 0 s0 variance g5;
          s2 = s1\<lparr>arcs := sort_js cmp_len (arcs s1)\<rparr>;
          (numPlanets, g7) = rInt g6 2 7
      in case planets_gen 0 numPlanets s2 g7 of
           Inl e \<Rightarrow> Inl e
         | Inr (s3, g8) \<Rightarrow> Inr (stars_gen 0 width height s3 g8))"

section \<open>The frame renderer\<close>

text \<open>
  The calls that \<^verbatim>\<open>draw\<close> makes on the p5 drawing surface, in the order made. The surface
  itself is outside the sketch; a frame is the list of calls.
\<close>

datatype blend = ADD

datatype op =
    Background jsnum
  | Translate jsnum jsnum
  | Scale jsnum
  | Rotate jsnum
  | Push
  | Pop
  | NoStroke
  | NoFill
  | Fill hsb
  | Stroke3 jsnum jsnum jsnum
  | Stroke4 jsnum jsnum jsnum jsnum
  | StrokeWeight jsnum
  | BlendMode blend
  | Ellipse3 jsnum jsnum jsnum
  | Ellipse4 jsnum jsnum jsnum jsnum
  | Line jsnum jsnum jsnum jsnum
  | Arc jsnum jsnum jsnum jsnum jsnum jsnum

text \<open>
  What \<^verbatim>\<open>draw\<close> reads besides the scene: the canvas size, the pointer (the sketch's own
  \<^verbatim>\<open>mouseDown\<close> flag, p5's \<^verbatim>\<open>mouseX\<close> and \<^verbatim>\<open>mouseY\<close>) and p5's \<^verbatim>\<open>frameCount\<close>, all finite.
  p5's \<^verbatim>\<open>noise\<close> is a parameter of \<^verbatim>\<open>draw\<close>; its own state is modelled further down.
\<close>

record env =
  width :: real
  height :: real
  mouseDown :: bool
  mouseX :: real
  mouseY :: real
  frameCount :: nat

text \<open>
  The outcome of a call: it does not return (\<open>Hang\<close>), it throws, or it returns.
\<close>

datatype 'a result = Hang | Throw error | Ok 'a

definition pushPop :: "op list \<Rightarrow> op list" where
  "pushPop f = [Push] @ f @ [Pop]"

text \<open>\<^verbatim>\<open>for (let i = numCircles; i >= 0; i--)\<close> (lines 153 to 156).\<close>

function rings :: "scene \<Rightarrow> int \<Rightarrow> op list" where
  "rings s i =
     (if 0 \<le> i
      then [Fill (colorMap s (jmul (jdiv (Fin (of_int i)) (Fin (of_int (numCircles s))))
                               (Fin (9 / 10))) (Fin 0)),
            Ellipse3 (Fin 0) (Fin 0) (jmul (jmul (Fin (of_int i)) (arcSize s)) (Fin 2))]
           @ rings s (i - 1)
      else [])"
  by pat_completeness auto
termination
  by (relation "measure (\<lambda>(s, i). nat (i + 1))") auto

definition star_ops :: "(jsnum \<Rightarrow> jsnum \<Rightarrow> jsnum) \<Rightarrow> env \<Rightarrow> star \<Rightarrow> op list" where
  "star_ops noise e st =
     (let lum = noise (s_idx st)
                  (jadd (s_idx st) (jmul (Fin (of_nat (frameCount e))) (s_speed st)))
      in [Stroke3 (s_hue st) (s_sat st) (jmul lum (Fin (7 / 10))),
          Line (jsub (s_x st) (jdiv (s_size st) (Fin 2))) (s_y st)
               (jadd (s_x st) (jdiv (s_size st) (Fin 2))) (s_y st),
          Line (s_x st) (jsub (s_y st) (jdiv (s_size st) (Fin 2)))
               (s_x st) (jadd (s_y st) (jdiv (s_size st) (Fin 2)))])"

text \<open>
  One arc (lines 173 to 175). Spreading an \<^verbatim>\<open>undefined\<close> colour into the call throws.
\<close>

definition arc_tick :: "spaceObject \<Rightarrow> error + (op list \<times> spaceObject)" where
  "arc_tick ob =
     (let ob' = ob\<lparr>o_angle := jadd (o_angle ob) (o_speed ob)\<rparr>
      in case o_col ob' of
           None \<Rightarrow> Inl TypeError
         | Some (h, sa, b) \<Rightarrow>
             Inr ([Stroke4 h sa b (Fin (5 / 10)),
                   Arc (Fin 0) (Fin 0) (jmul (o_radius ob') (Fin 2)) (jmul (o_radius ob') (Fin 2))
                     (o_angle ob') (jadd (o_angle ob') (o_len ob'))], ob'))"

fun arcs_tick :: "spaceObject list \<Rightarrow> error + (op list \<times> spaceObject list)" where
  "arcs_tick [] = Inr ([], [])"
| "arcs_tick (ob # obs) =
     (case arc_tick ob of
        Inl t \<Rightarrow> Inl t
      | Inr (ops, ob') \<Rightarrow>
          (case arcs_tick obs of
             Inl t \<Rightarrow> Inl t
           | Inr (ops', obs') \<Rightarrow> Inr (ops @ ops', ob' # obs')))"

text \<open>
  Reading \<^verbatim>\<open>o.target.x\<close> and \<^verbatim>\<open>o.target.y\<close>: an \<^verbatim>\<open>undefined\<close> target throws; a target that
  has no position yet gives \<^verbatim>\<open>undefined\<close>, which is \<^verbatim>\<open>NaN\<close> in the sum (\<open>num_of\<close>).
\<close>

definition target_xy :: "scene \<Rightarrow> target option \<Rightarrow> error + (jsnum option \<times> jsnum option)" where
  "target_xy s t =
     (case t of
        None \<Rightarrow> Inl TypeError
      | Some Center \<Rightarrow> Inr (Some (c_x (center s)), Some (c_y (center s)))
      | Some (Planet k) \<Rightarrow>
          (if k < length (planets s)
           then Inr (o_x (planets s ! k), o_y (planets s ! k))
           else Inl TypeError))"

fun num_of :: "jsnum option \<Rightarrow> jsnum" where
  "num_of None = NaN"
| "num_of (Some v) = v"

text \<open>
  \<^verbatim>\<open>for (let i = o.len; i >= 0; i -= mouseDown ? 2/zoomScale : 2)\<close> (lines 190 to 195).
  The loop does not end when \<^verbatim>\<open>o.len\<close> is \<^verbatim>\<open>Infinity\<close>; \<open>None\<close> is that case.
\<close>

partial_function (option) planet_ellipses ::
  "scene \<Rightarrow> bool \<Rightarrow> spaceObject \<Rightarrow> jsnum \<Rightarrow> jsnum \<Rightarrow> op list option" where
  "planet_ellipses s md ob percent i =
     (if jge i (Fin 0)
      then (let amt = jdiv i (o_len ob);
                amt2 = jadd (jmul (jsub (Fin 1) (jpow amt 5)) percent) (jsub (Fin 1) percent)
            in Option.bind
                 (planet_ellipses s md ob percent
                    (jsub i (if md then jdiv (Fin 2) zoomScale else Fin 2)))
                 (\<lambda>rest. Some
                    ([Fill (colorMap s amt2 (case o_hue ob of None \<Rightarrow> Fin 0 | Some h \<Rightarrow> h)),
                      Ellipse4
                        (jsub (jadd (jdiv (jmul (jneg (o_len ob)) amt) (Fin 2))
                                 (jdiv (o_len ob) (Fin 2))) (Fin 1))
                        (Fin 0)
                        (jmul (o_len ob) amt)
                        (jmul (jsin (jdiv (jmul amt PI) (Fin 2))) (o_len ob))]
                     @ rest)))
      else Some [])"

text \<open>
  One planet (lines 179 to 196): planet \<open>i\<close> of the scene is advanced and placed, then
  drawn. The target's position is read after the angle is stored and before the planet's
  own position is.
\<close>

definition planet_tick :: "env \<Rightarrow> nat \<Rightarrow> scene \<Rightarrow> (op list \<times> spaceObject) result" where
  "planet_tick e i s =
     (let ob = planets s ! i;
          ob1 = ob\<lparr>o_angle := jadd (o_angle ob) (o_speed ob)\<rparr>
      in case target_xy (s\<lparr>planets := (planets s)[i := ob1]\<rparr>) (o_target ob1) of
           Inl t \<Rightarrow> Throw t
         | Inr (tx, ty) \<Rightarrow>
             (let xv = jadd (jmul (jcos (o_angle ob1)) (o_radius ob1)) (num_of tx);
                  yv = jadd (jmul (jsin (o_angle ob1)) (o_radius ob1)) (num_of ty);
                  ob2 = ob1\<lparr>o_x := Some xv, o_y := Some yv\<rparr>;
                  a = atan2 yv xv;
                  percent = jsub (Fin 1) (jmul (jdiv (hypot xv yv) (radius s)) (Fin (4 / 10)))
              in case planet_ellipses s (mouseDown e) ob2 percent (o_len ob2) of
                   None \<Rightarrow> Hang
                 | Some els \<Rightarrow>
                     Ok (pushPop ([Translate xv yv, Rotate a, NoStroke] @ els), ob2)))"

text \<open>\<^verbatim>\<open>for (let o of planets)\<close>: by index, each planet seeing the ones before it updated.\<close>

function planets_tick :: "env \<Rightarrow> nat \<Rightarrow> scene \<Rightarrow> (op list \<times> scene) result" where
  "planets_tick e i s =
     (if i < length (planets s)
      then (case planet_tick e i s of
              Hang \<Rightarrow> Hang
            | Throw t \<Rightarrow> Throw t
            | Ok (ops, ob') \<Rightarrow>
                (case planets_tick e (Suc i) (s\<lparr>planets := (planets s)[i := ob']\<rparr>) of
                   Hang \<Rightarrow> Hang
                 | Throw t \<Rightarrow> Throw t
                 | Ok (ops', s') \<Rightarrow> Ok (ops @ ops', s')))
      else Ok ([], s))"
  by pat_completeness auto
termination
  by (relation "measure (\<lambda>(e, i, s). length (planets s) - i)") auto

text \<open>
  \<^verbatim>\<open>draw\<close> (lines 140 to 199): the frame's calls and the scene after the tick. The arcs
  and planets are advanced in source order; the calls are listed in the order made. A call
  that throws or does not return has no frame and no scene in the model.
\<close>

definition draw :: "(jsnum \<Rightarrow> jsnum \<Rightarrow> jsnum) \<Rightarrow> env \<Rightarrow> scene \<Rightarrow> (op list \<times> scene) result" where
  "draw noise e s =
     (case arcs_tick (arcs s) of
        Inl t \<Rightarrow> Throw t
      | Inr (aops, arcs') \<Rightarrow>
          (case planets_tick e 0 (s\<lparr>arcs := arcs'\<rparr>) of
             Hang \<Rightarrow> Hang
           | Throw t \<Rightarrow> Throw t
           | Ok (pops, s') \<Rightarrow>
               Ok ([Background (Fin 0)]
                   @ (if mouseDown e
                      then [Translate (jdiv (Fin (width e)) (Fin 2)) (jdiv (Fin (height e)) (Fin 2)),
                            Scale zoomScale,
                            Translate (jneg (Fin (mouseX e))) (jneg (Fin (mouseY e)))]
                      else [])
                   @ pushPop
                       ([Translate (jdiv (Fin (width e)) (Fin 2)) (jdiv (Fin (height e)) (Fin 2)),
                         NoStroke]
                        @ rings s (numCircles s)
                        @ pushPop
                            ([Translate (jdiv (jneg (Fin (width e))) (Fin 2))
                                (jdiv (jneg (Fin (height e))) (Fin 2)),
                              BlendMode ADD]
                             @ concat (map (star_ops noise e) (stars s)))
                        @ [NoFill, StrokeWeight (arcSize s)]
                        @ aops
                        @ pops),
                   s')))"

section \<open>The state of p5's noise\<close>

text \<open>
  \<^verbatim>\<open>draw\<close> above takes the noise function as given. In p5 the function has a state: a table
  \<^verbatim>\<open>perlin\<close> of 4096 numbers that does not exist until the first call of \<^verbatim>\<open>noise\<close>, which
  fills it with 4096 values of \<^verbatim>\<open>Math.random\<close> (the sketch never calls \<^verbatim>\<open>noiseSeed\<close>). This
  section models that state, from the source of p5's \<^verbatim>\<open>noise\<close>, and threads it through the
  star loop, the only place where the sketch calls \<^verbatim>\<open>noise\<close>.
\<close>

definition scaled_cosine :: "real \<Rightarrow> real" where
  "scaled_cosine i = 5 / 10 * (1 - cos (i * pi))"

text \<open>
  \<^verbatim>\<open>perlin[i & PERLIN_SIZE]\<close> with \<^verbatim>\<open>PERLIN_SIZE = 4095\<close>: the bitwise \<^verbatim>\<open>&\<close> with 4095 is the
  remainder modulo 4096, which the 32-bit wrap-around of \<^verbatim>\<open><<\<close> and \<^verbatim>\<open>&\<close> does not change. An
  entry that is missing reads as \<^verbatim>\<open>undefined\<close>, which is \<^verbatim>\<open>NaN\<close> in the arithmetic that follows.
\<close>

definition perlin_at :: "real list \<Rightarrow> int \<Rightarrow> jsnum" where
  "perlin_at t i = (let k = nat (i mod 4096) in if k < length t then Fin (t ! k) else NaN)"

text \<open>
  The loop over the octaves, \<^verbatim>\<open>for (let o = 0; o < perlin_octaves; o++)\<close> with four octaves
  and amplitude falloff 0.5; the first argument counts the octaves still to do.
\<close>

primrec octaves ::
  "nat \<Rightarrow> real list \<Rightarrow> int \<Rightarrow> int \<Rightarrow> int \<Rightarrow> real \<Rightarrow> real \<Rightarrow> real \<Rightarrow> jsnum \<Rightarrow> real \<Rightarrow> jsnum" where
  "octaves 0 t xi yi zi xf yf zf r ampl = r"
| "octaves (Suc k) t xi yi zi xf yf zf r ampl =
     (let off = xi + yi * 16 + zi * 256;
          rxf = Fin (scaled_cosine xf);
          ryf = Fin (scaled_cosine yf);
          n1 = perlin_at t off;
          n1 = jadd n1 (jmul rxf (jsub (perlin_at t (off + 1)) n1));
          n2 = perlin_at t (off + 16);
          n2 = jadd n2 (jmul rxf (jsub (perlin_at t (off + 16 + 1)) n2));
          n1 = jadd n1 (jmul ryf (jsub n2 n1));
          off = off + 256;
          n2 = perlin_at t off;
          n2 = jadd n2 (jmul rxf (jsub (perlin_at t (off + 1)) n2));
          n3 = perlin_at t (off + 16);
          n3 = jadd n3 (jmul rxf (jsub (perlin_at t (off + 16 + 1)) n3));
          n2 = jadd n2 (jmul ryf (jsub n3 n2));
          n1 = jadd n1 (jmul (Fin (scaled_cosine zf)) (jsub n2 n1));
          r = jadd r (jmul n1 (Fin ampl));
          ampl = ampl * (5 / 10);
          xi = xi * 2; xf = xf * 2;
          yi = yi * 2; yf = yf * 2;
          zi = zi * 2; zf = zf * 2;
          (xi, xf) = (if 1 \<le> xf then (xi + 1, xf - 1) else (xi, xf));
          (yi, yf) = (if 1 \<le> yf then (yi + 1, yf - 1) else (yi, yf));
          (zi, zf) = (if 1 \<le> zf then (zi + 1, zf - 1) else (zi, zf))
      in octaves k t xi yi zi xf yf zf r ampl)"

text \<open>
  The value of \<^verbatim>\<open>noise(x, y)\<close> over a table (\<^verbatim>\<open>z\<close> defaults to 0). An argument that is not
  finite gives \<^verbatim>\<open>NaN\<close>.
\<close>

fun noise_value :: "real list \<Rightarrow> jsnum \<Rightarrow> jsnum \<Rightarrow> jsnum" where
  "noise_value t (Fin x) (Fin y) =
     (let x = (if x < 0 then - x else x);
          y = (if y < 0 then - y else y);
          z = 0;
          xi = \<lfloor>x\<rfloor>; yi = \<lfloor>y\<rfloor>; zi = \<lfloor>z\<rfloor>
      in octaves 4 t xi yi zi (x - of_int xi) (y - of_int yi) (z - of_int zi) (Fin 0) (5 / 10))"
| "noise_value t _ _ = NaN"

text \<open>\<^verbatim>\<open>noise(x, y)\<close> with its state: the table, if there is one, and the random source.\<close>

definition p5_noise :: "real list option \<Rightarrow> rng \<Rightarrow> jsnum \<Rightarrow> jsnum \<Rightarrow> jsnum \<times> real list option \<times> rng" where
  "p5_noise perlin g x y =
     (let (t, g') = (case perlin of None \<Rightarrow> (stake 4096 g, sdrop 4096 g) | Some t \<Rightarrow> (t, g))
      in (noise_value t x y, Some t, g'))"

text \<open>The star loop (lines 161 to 166) with that state.\<close>

fun stars_pass :: "real list option \<Rightarrow> rng \<Rightarrow> env \<Rightarrow> star list \<Rightarrow> op list \<times> real list option \<times> rng" where
  "stars_pass perlin g e [] = ([], perlin, g)"
| "stars_pass perlin g e (st # sts) =
     (let (lum, perlin1, g1) =
            p5_noise perlin g (s_idx st)
              (jadd (s_idx st) (jmul (Fin (of_nat (frameCount e))) (s_speed st)));
          ops = [Stroke3 (s_hue st) (s_sat st) (jmul lum (Fin (7 / 10))),
                 Line (jsub (s_x st) (jdiv (s_size st) (Fin 2))) (s_y st)
                      (jadd (s_x st) (jdiv (s_size st) (Fin 2))) (s_y st),
                 Line (s_x st) (jsub (s_y st) (jdiv (s_size st) (Fin 2)))
                      (s_x st) (jadd (s_y st) (jdiv (s_size st) (Fin 2)))];
          (ops', perlin2, g2) = stars_pass perlin1 g1 e sts
      in (ops @ ops', perlin2, g2))"

text \<open>\<^verbatim>\<open>draw\<close> with that state: the frame, and the table and the random source after it.\<close>

definition draw_with_noise ::
  "real list option \<Rightarrow> rng \<Rightarrow> env \<Rightarrow> scene \<Rightarrow> (op list \<times> scene) result \<times> real list option \<times> rng" where
  "draw_with_noise perlin g e s =
     (let (sops, perlin', g') = stars_pass perlin g e (stars s)
      in ((case arcs_tick (arcs s) of
             Inl t \<Rightarrow> Throw t
           | Inr (aops, arcs') \<Rightarrow>
               (case planets_tick e 0 (s\<lparr>arcs := arcs'\<rparr>) of
                  Hang \<Rightarrow> Hang
                | Throw t \<Rightarrow> Throw t
                | Ok (pops, s') \<Rightarrow>
                    Ok ([Background (Fin 0)]
                        @ (if mouseDown e
                           then [Translate (jdiv (Fin (width e)) (Fin 2)) (jdiv (Fin (height e)) (Fin 2)),
                                 Scale zoomScale,
                                 Translate (jneg (Fin (mouseX e))) (jneg (Fin (mouseY e)))]
                           else [])
                        @ pushPop
                            ([Translate (jdiv (Fin (width e)) (Fin 2)) (jdiv (Fin (height e)) (Fin 2)),
                              NoStroke]
                             @ rings s (numCircles s)
                             @ pushPop
                                 ([Translate (jdiv (jneg (Fin (width e))) (Fin 2))
                                     (jdiv (jneg (Fin (height e))) (Fin 2)),
                                   BlendMode ADD]
                                  @ sops)
                             @ [NoFill, StrokeWeight (arcSize s)]
                             @ aops
                             @ pops),
                        s'))),
          perlin', g'))"

section \<open>Invariants and observations\<close>

text \<open>
  What the generator establishes for the planets: every length is finite, and every target
  is the centre or a planet at a smaller index.
\<close>

definition planets_ok :: "spaceObject list \<Rightarrow> bool" where
  "planets_ok ps =
     (\<forall>i < length ps.
        (\<exists>l. o_len (ps ! i) = Fin l)
      \<and> (o_target (ps ! i) = Some Center \<or> (\<exists>k < i. o_target (ps ! i) = Some (Planet k))))"

text \<open>
  What the generator establishes for an arc, with \<open>nc\<close> the number of rings and \<open>asz\<close> the
  ring thickness: a colour, a radius bucket \<open>b\<close> in \<open>[0, nc)\<close>, and a length that is the
  sliver \<^verbatim>\<open>1/(TAU*b)\<close> or a finite value in \<open>[0, pi/2)\<close>.
\<close>

definition arc_ok :: "int \<Rightarrow> jsnum \<Rightarrow> spaceObject \<Rightarrow> bool" where
  "arc_ok nc asz a =
     (o_col a \<noteq> None \<and> o_len a \<noteq> NaN
      \<and> (\<exists>b. 0 \<le> b \<and> b < nc \<and> o_radius a = jmul (Fin (of_int b)) asz
            \<and> (o_len a = jdiv (Fin 1) (jmul TAU (Fin (of_int b)))
               \<or> (\<exists>l. o_len a = Fin l \<and> 0 \<le> l \<and> l < pi / 2))))"

text \<open>
  What \<^verbatim>\<open>draw\<close> needs of a planet among \<open>n\<close> planets in order to return: a length that is
  not \<^verbatim>\<open>Infinity\<close> and a target that exists.
\<close>

definition drawable :: "nat \<Rightarrow> spaceObject \<Rightarrow> bool" where
  "drawable n p =
     (o_len p \<noteq> PInf
      \<and> (o_target p = Some Center \<or> (\<exists>k < n. o_target p = Some (Planet k))))"

text \<open>\<^verbatim>\<open>o.angle += o.speed\<close>, and no other field touched.\<close>

definition advance :: "spaceObject \<Rightarrow> spaceObject" where
  "advance ob = ob\<lparr>o_angle := jadd (o_angle ob) (o_speed ob)\<rparr>"

text \<open>
  Following \<^verbatim>\<open>target\<close> links from planet \<open>i\<close> arrives at the centre in at most \<open>fuel\<close> steps.
\<close>

fun reaches_center :: "spaceObject list \<Rightarrow> nat \<Rightarrow> nat \<Rightarrow> bool" where
  "reaches_center ps 0 i = False"
| "reaches_center ps (Suc fuel) i =
     (i < length ps \<and>
      (case o_target (ps ! i) of
         None \<Rightarrow> False
       | Some Center \<Rightarrow> True
       | Some (Planet k) \<Rightarrow> reaches_center ps fuel k))"

text \<open>The number of \<^verbatim>\<open>ellipse\<close> calls in a frame.\<close>

fun is_ellipse :: "op \<Rightarrow> bool" where
  "is_ellipse (Ellipse3 _ _ _) = True"
| "is_ellipse (Ellipse4 _ _ _ _) = True"
| "is_ellipse _ = False"

definition ellipse_count :: "op list \<Rightarrow> nat" where
  "ellipse_count ops = length (filter is_ellipse ops)"

section \<open>Sample inputs\<close>

text \<open>
  A random sequence and the globals that \<^verbatim>\<open>init\<close> derives from it on an 800 by 600 canvas
  (70 rings, base hue 0.1, hue range -0.5), a small scene over those globals with one arc,
  a planet around the centre, a planet around that planet and one star, and a pointer
  state.
\<close>

definition demo_rng :: rng where
  "demo_rng = 0 ## 1 / 10 ## 6 / 10 ## 4 / 10 ## sconst 0"

definition demo_globals :: scene where
  "demo_globals = fst (init_globals 800 600 demo_rng)"

definition demo_scene :: scene where
  "demo_scene = demo_globals
     \<lparr>arcs := [\<lparr>o_col = Some (Fin 0, Fin 0, Fin 1), o_hue = None, o_len = Fin 1,
                o_angle = Fin 0, o_radius = Fin 27, o_speed = Fin (1 / 250),
                o_target = None, o_isPlanet = False, o_x = None, o_y = None\<rparr>],
      planets := [\<lparr>o_col = None, o_hue = Some (Fin (1 / 10)), o_len = Fin 81,
                   o_angle = Fin 0, o_radius = Fin 100, o_speed = Fin (1 / 500),
                   o_target = Some Center, o_isPlanet = True, o_x = None, o_y = None\<rparr>,
                  \<lparr>o_col = None, o_hue = Some (Fin 0), o_len = Fin 45,
                   o_angle = Fin 1, o_radius = Fin 70, o_speed = Fin (1 / 1000),
                   o_target = Some (Planet 0), o_isPlanet = True, o_x = None, o_y = None\<rparr>],
      stars := [\<lparr>s_x = Fin 10, s_y = Fin 20, s_size = Fin 3, s_hue = Fin (1 / 5),
                 s_sat = Fin (1 / 2), s_idx = Fin 1000, s_speed = Fin (1 / 20)\<rparr>]\<rparr>"

definition demo_env :: env where
  "demo_env = \<lparr>width = 800, height = 600, mouseDown = False, mouseX = 0, mouseY = 0,
               frameCount = 1\<rparr>"

section \<open>Properties of the model\<close>

declare arcs_gen.simps [simp del] planets_gen.simps [simp del] stars_gen.simps [simp del]
  rings.simps [simp del] planets_tick.simps [simp del]

text \<open>\<open>rInt\<close> is \<^verbatim>\<open>floor(random(min(a, b), max(a, b)))\<close> on integer bounds.\<close>

lemma rInt_random2:
  "jfloor (fst (random2 g (jmin (Fin (of_int a)) (Fin (of_int b)))
                  (jmax (Fin (of_int a)) (Fin (of_int b)))))
     = Fin (of_int (fst (rInt g b a)))"
  by (auto simp: random2_def rInt_def jmin_def jmax_def jgt_def jsub_def Let_def min_def max_def)

subsection \<open>The random source\<close>

lemma valid_rng_shd: "valid_rng g \<Longrightarrow> 0 \<le> shd g \<and> shd g < 1"
  by (simp add: valid_rng_def shd_sset)

lemma valid_rng_stl: "valid_rng g \<Longrightarrow> valid_rng (stl g)"
  by (auto simp: valid_rng_def dest: stl_sset)

lemma random0_rng [simp]: "snd (random0 g) = stl g"
  by (simp add: random0_def)

lemma random1_rng [simp]: "snd (random1 g m) = stl g"
  by (simp add: random1_def)

lemma random2_rng [simp]: "snd (random2 g lo hi) = stl g"
  by (simp add: random2_def split_def)

lemma rInt_rng [simp]: "snd (rInt g b a) = stl g"
  by (simp add: rInt_def Let_def)

lemma random1_Fin: "fst (random1 g (Fin m)) = Fin (shd g * m)"
  by (simp add: random1_def)

lemma random2_Fin:
  "lo \<le> hi \<Longrightarrow> fst (random2 g (Fin lo) (Fin hi)) = Fin (shd g * (hi - lo) + lo)"
  by (simp add: random2_def jgt_def jsub_def)

lemma rInt_range:
  assumes "valid_rng g" and "lo \<le> hi"
  shows "lo \<le> fst (rInt g lo hi) \<and> (lo < hi \<longrightarrow> fst (rInt g lo hi) < hi)"
    and "lo \<le> fst (rInt g hi lo) \<and> (lo < hi \<longrightarrow> fst (rInt g hi lo) < hi)"
proof -
  let ?u = "shd g"
  let ?v = "?u * (real_of_int hi - real_of_int lo) + real_of_int lo"
  have u: "0 \<le> ?u" "?u < 1"
    using assms(1) by (simp_all add: valid_rng_shd)
  have d: "0 \<le> real_of_int hi - real_of_int lo"
    using assms(2) by simp
  have lower: "real_of_int lo \<le> ?v"
    using u(1) d by simp
  have upper: "?v < real_of_int hi" if "lo < hi"
  proof -
    have "0 < real_of_int hi - real_of_int lo" using that by simp
    then have "?u * (real_of_int hi - real_of_int lo) < 1 * (real_of_int hi - real_of_int lo)"
      using u(2) by (intro mult_strict_right_mono) simp_all
    then show ?thesis by simp
  qed
  have "lo \<le> \<lfloor>?v\<rfloor>"
    using lower le_floor_iff by blast
  moreover have "\<lfloor>?v\<rfloor> < hi" if "lo < hi"
    using upper [OF that] floor_less_iff by blast
  ultimately have fl: "lo \<le> \<lfloor>?v\<rfloor> \<and> (lo < hi \<longrightarrow> \<lfloor>?v\<rfloor> < hi)"
    by blast
  show "lo \<le> fst (rInt g lo hi) \<and> (lo < hi \<longrightarrow> fst (rInt g lo hi) < hi)"
    using fl assms(2) by (simp add: rInt_def Let_def min_def max_def)
  show "lo \<le> fst (rInt g hi lo) \<and> (lo < hi \<longrightarrow> fst (rInt g hi lo) < hi)"
    using fl assms(2) by (simp add: rInt_def Let_def min_def max_def)
qed

subsection \<open>Sorting\<close>

lemma set_insert_by [simp]: "set (insert_by cmp v ws) = insert v (set ws)"
  by (induction ws) auto

lemma length_insert_by [simp]: "length (insert_by cmp v ws) = Suc (length ws)"
  by (induction ws) auto

lemma set_sort_js [simp]: "set (sort_js cmp vs) = set vs"
  by (induction vs) auto

lemma length_sort_js [simp]: "length (sort_js cmp vs) = length vs"
  by (induction vs) auto

text \<open>On lengths that are not \<^verbatim>\<open>NaN\<close> the comparator is positive exactly when the left length is the smaller one.\<close>

lemma cmp_len_pos:
  "o_len a \<noteq> NaN \<Longrightarrow> o_len b \<noteq> NaN \<Longrightarrow> jgt (cmp_len a b) (Fin 0) = jlt (o_len a) (o_len b)"
  by (cases "o_len a"; cases "o_len b") (simp_all add: cmp_len_def jgt_def jsub_def)

lemma jge_total: "a \<noteq> NaN \<Longrightarrow> b \<noteq> NaN \<Longrightarrow> \<not> jlt a b \<Longrightarrow> jge a b"
  by (cases a; cases b) (auto simp: jge_def jle_def)

lemma jlt_jge: "jlt a b \<Longrightarrow> jge b a"
  by (simp add: jge_def jle_def)

lemma jge_trans: "jge a b \<Longrightarrow> jge b c \<Longrightarrow> jge a c"
  by (cases a; cases b; cases c) (auto simp: jge_def jle_def)

lemma sorted_insert_by:
  assumes "o_len v \<noteq> NaN" and "\<forall>w \<in> set ws. o_len w \<noteq> NaN"
    and "sorted_wrt (\<lambda>a b. jge (o_len a) (o_len b)) ws"
  shows "sorted_wrt (\<lambda>a b. jge (o_len a) (o_len b)) (insert_by cmp_len v ws)"
  using assms
proof (induction ws)
  case Nil
  then show ?case by simp
next
  case (Cons w ws)
  show ?case
  proof (cases "jlt (o_len v) (o_len w)")
    case True
    then have "jge (o_len w) (o_len v)" by (rule jlt_jge)
    with Cons True show ?thesis
      by (auto simp: cmp_len_pos)
  next
    case False
    then have vw: "jge (o_len v) (o_len w)"
      using Cons.prems by (simp add: jge_total)
    have "\<forall>z \<in> set ws. jge (o_len v) (o_len z)"
      using Cons.prems vw by (auto intro: jge_trans)
    with Cons.prems False vw show ?thesis
      by (simp add: cmp_len_pos)
  qed
qed

lemma sorted_sort_js:
  "\<forall>w \<in> set vs. o_len w \<noteq> NaN \<Longrightarrow> sorted_wrt (\<lambda>a b. jge (o_len a) (o_len b)) (sort_js cmp_len vs)"
  by (induction vs) (simp_all add: sorted_insert_by)

subsection \<open>The arc loop\<close>

lemma gen_arc_arcs [simp]: "gen_arc (s\<lparr>arcs := ys\<rparr>) v g = gen_arc s v g"
  by (simp add: gen_arc_def colorMap_def)

lemma gen_arc_rng: "valid_rng g \<Longrightarrow> valid_rng (snd (gen_arc s v g))"
  by (simp add: gen_arc_def split_def Let_def valid_rng_stl)

lemma arcs_gen_spec:
  assumes step: "\<And>g. Q g \<Longrightarrow> P (fst (gen_arc s v g)) \<and> Q (snd (gen_arc s v g))"
  shows "Q g \<Longrightarrow>
         \<exists>L. fst (arcs_gen i (s\<lparr>arcs := ys\<rparr>) v g) = s\<lparr>arcs := ys @ L\<rparr>
            \<and> length L = numArcs - i \<and> (\<forall>a \<in> set L. P a)
            \<and> Q (snd (arcs_gen i (s\<lparr>arcs := ys\<rparr>) v g))"
proof (induction "numArcs - i" arbitrary: i ys g)
  case 0
  then show ?case
    by (subst (1 2) arcs_gen.simps) simp
next
  case (Suc n)
  let ?a = "fst (gen_arc s v g)"
  let ?g = "snd (gen_arc s v g)"
  have lt: "i < numArcs" and n: "n = numArcs - Suc i"
    using Suc.hyps(2) by simp_all
  have a: "P ?a" and g: "Q ?g"
    using step [OF Suc.prems] by simp_all
  obtain L where L: "fst (arcs_gen (Suc i) (s\<lparr>arcs := (ys @ [?a])\<rparr>) v ?g) = s\<lparr>arcs := (ys @ [?a]) @ L\<rparr>"
      "length L = numArcs - Suc i" "\<forall>a \<in> set L. P a"
      "Q (snd (arcs_gen (Suc i) (s\<lparr>arcs := (ys @ [?a])\<rparr>) v ?g))"
    using Suc.hyps(1) [OF n g, of "ys @ [?a]"] by blast
  have unfold: "arcs_gen i (s\<lparr>arcs := ys\<rparr>) v g = arcs_gen (Suc i) (s\<lparr>arcs := (ys @ [?a])\<rparr>) v ?g"
    using lt by (subst arcs_gen.simps) (simp add: split_def Let_def)
  show ?case
    unfolding unfold using L a lt
    by (intro exI [of _ "?a # L"]) simp
qed

subsection \<open>The star loop\<close>

lemma gen_star_stars [simp]: "gen_star w h (s\<lparr>stars := ys\<rparr>) g = gen_star w h s g"
  by (simp add: gen_star_def)

lemma gen_star_rng: "valid_rng g \<Longrightarrow> valid_rng (snd (gen_star w h s g))"
  by (simp add: gen_star_def split_def Let_def valid_rng_stl)

lemma stars_gen_spec:
  "valid_rng g \<Longrightarrow>
   \<exists>L. fst (stars_gen i w h (s\<lparr>stars := ys\<rparr>) g) = s\<lparr>stars := ys @ L\<rparr> \<and> length L = 1000 - i
      \<and> valid_rng (snd (stars_gen i w h (s\<lparr>stars := ys\<rparr>) g))"
proof (induction "1000 - i" arbitrary: i ys g)
  case 0
  then show ?case
    by (subst (1 2) stars_gen.simps) simp
next
  case (Suc n)
  let ?a = "fst (gen_star w h s g)"
  let ?g = "snd (gen_star w h s g)"
  have lt: "i < 1000" and n: "n = 1000 - Suc i"
    using Suc.hyps(2) by simp_all
  have g: "valid_rng ?g"
    using Suc.prems by (rule gen_star_rng)
  obtain L where L: "fst (stars_gen (Suc i) w h (s\<lparr>stars := (ys @ [?a])\<rparr>) ?g) = s\<lparr>stars := (ys @ [?a]) @ L\<rparr>"
      "length L = 1000 - Suc i"
      "valid_rng (snd (stars_gen (Suc i) w h (s\<lparr>stars := (ys @ [?a])\<rparr>) ?g))"
    using Suc.hyps(1) [OF n g, of "ys @ [?a]"] by blast
  have unfold: "stars_gen i w h (s\<lparr>stars := ys\<rparr>) g = stars_gen (Suc i) w h (s\<lparr>stars := (ys @ [?a])\<rparr>) ?g"
    using lt by (subst stars_gen.simps) (simp add: split_def Let_def)
  show ?case
    unfolding unfold using L lt
    by (intro exI [of _ "?a # L"]) simp
qed

lemma planets_ok_Nil [simp]: "planets_ok []"
  by (simp add: planets_ok_def)

lemma planets_ok_snoc:
  assumes "planets_ok ps" and "o_len p = Fin l"
    and "o_target p = Some Center \<or> (\<exists>k < length ps. o_target p = Some (Planet k))"
  shows "planets_ok (ps @ [p])"
  unfolding planets_ok_def
proof (intro allI impI)
  fix i
  assume "i < length (ps @ [p])"
  then consider "i < length ps" | "i = length ps"
    by fastforce
  then show "(\<exists>l. o_len ((ps @ [p]) ! i) = Fin l)
      \<and> (o_target ((ps @ [p]) ! i) = Some Center
         \<or> (\<exists>k < i. o_target ((ps @ [p]) ! i) = Some (Planet k)))"
  proof cases
    case 1
    then show ?thesis
      using assms(1) by (simp add: planets_ok_def nth_append)
  next
    case 2
    then show ?thesis
      using assms(2,3) by (simp add: nth_append)
  qed
qed

lemma gen_planet_Inl:
  assumes "gen_planet i n s g = Inl e"
  shows "0 < length (planets s)
       \<and> \<not> (0 \<le> fst (rInt (stl g) 0 (int (length (planets s))))
            \<and> fst (rInt (stl g) 0 (int (length (planets s)))) < int (length (planets s)))"
  using assms
  by (auto simp: gen_planet_def split_def Let_def random0_def target_len_def index_planet_def
      split: sum.splits if_splits option.splits target.splits)

lemma gen_planet_Inr:
  assumes "gen_planet i n s g = Inr (p, g')" and "valid_rng g"
  shows "valid_rng g' \<and> (\<exists>f tlen. target_len s (o_target p) = Inr tlen \<and> o_len p = jmul (Fin f) tlen)"
  using assms
  by (auto simp: gen_planet_def split_def Let_def random0_def random2_Fin valid_rng_stl
      split: sum.splits if_splits)

lemma gen_planet_ok:
  assumes g: "valid_rng g" and ok: "planets_ok (planets s)" and c: "c_len (center s) = Fin c"
  shows "\<exists>p g'. gen_planet i n s g = Inr (p, g') \<and> valid_rng g' \<and> planets_ok (planets s @ [p])"
proof (cases "gen_planet i n s g")
  case (Inl e)
  then have pos: "0 < length (planets s)"
    and bad: "\<not> (0 \<le> fst (rInt (stl g) 0 (int (length (planets s))))
            \<and> fst (rInt (stl g) 0 (int (length (planets s)))) < int (length (planets s)))"
    using gen_planet_Inl by blast+
  have "valid_rng (stl g)"
    using g by (rule valid_rng_stl)
  then show ?thesis
    using rInt_range(1) [of "stl g" 0 "int (length (planets s))"] pos bad by simp
next
  case (Inr r)
  obtain p g' where r: "r = (p, g')"
    by (cases r)
  obtain f tlen where v: "valid_rng g'" and t: "target_len s (o_target p) = Inr tlen"
    and l: "o_len p = jmul (Fin f) tlen"
    using gen_planet_Inr [OF Inr [unfolded r] g] by blast
  have "(o_target p = Some Center \<or> (\<exists>k < length (planets s). o_target p = Some (Planet k)))
        \<and> (\<exists>x. tlen = Fin x)"
  proof -
    from t consider (ctr) "o_target p = Some Center" "tlen = c_len (center s)"
      | (pla) k where "o_target p = Some (Planet k)" "k < length (planets s)"
          "tlen = o_len (planets s ! k)"
      by (auto simp: target_len_def split: option.splits target.splits if_splits)
    then show ?thesis
    proof cases
      case ctr
      then show ?thesis using c by simp
    next
      case pla
      moreover obtain l where "o_len (planets s ! k) = Fin l"
        using ok pla(2) unfolding planets_ok_def by blast
      ultimately show ?thesis by simp
    qed
  qed
  then obtain x where tgt: "o_target p = Some Center
        \<or> (\<exists>k < length (planets s). o_target p = Some (Planet k))" and x: "tlen = Fin x"
    by blast
  have "o_len p = Fin (f * x)"
    using l x by simp
  then have "planets_ok (planets s @ [p])"
    using ok tgt by (intro planets_ok_snoc)
  then show ?thesis
    using Inr r v by blast
qed

lemma planets_gen_spec:
  assumes "valid_rng g" and "planets_ok (planets s)" and "c_len (center s) = Fin c"
  shows "\<exists>L g'. planets_gen i n s g = Inr (s\<lparr>planets := planets s @ L\<rparr>, g')
           \<and> planets_ok (planets s @ L) \<and> valid_rng g'"
  using assms
proof (induction "nat (n - int i)" arbitrary: i s g)
  case 0
  then have "\<not> int i < n" by simp
  then have "planets_gen i n s g = Inr (s, g)"
    by (subst planets_gen.simps) simp
  then show ?case
    using "0.prems" by (intro exI [of _ "[]"] exI [of _ g]) simp
next
  case (Suc m)
  have lt: "int i < n" and m: "m = nat (n - int (Suc i))"
    using Suc.hyps(2) by linarith+
  obtain p g1 where p: "gen_planet i n s g = Inr (p, g1)" "valid_rng g1"
      "planets_ok (planets s @ [p])"
    using gen_planet_ok [OF Suc.prems] by blast
  let ?s = "s\<lparr>planets := planets s @ [p]\<rparr>"
  obtain L g' where L: "planets_gen (Suc i) n ?s g1 = Inr (?s\<lparr>planets := planets ?s @ L\<rparr>, g')"
      "planets_ok (planets ?s @ L)" "valid_rng g'"
    using Suc.hyps(1) [OF m, of g1 ?s] p(2,3) Suc.prems(3) by auto
  have "planets_gen i n s g = planets_gen (Suc i) n ?s g1"
    using lt p(1) by (subst planets_gen.simps) simp
  then show ?case
    using L by (intro exI [of _ "p # L"] exI [of _ g']) simp
qed

lemma sliver_not_NaN: "jdiv (Fin 1) (jmul TAU (Fin b)) \<noteq> NaN"
  by (simp add: TAU_def)

lemma gen_arc_col: "o_col (fst (gen_arc s v g)) \<noteq> None"
  by (simp add: gen_arc_def split_def Let_def)

lemma gen_arc_radius:
  "o_radius (fst (gen_arc s v g)) = jmul (Fin (of_int (fst (rInt g (numCircles s) 0)))) (arcSize s)"
  by (simp add: gen_arc_def split_def Let_def)

lemma gen_arc_len:
  "o_len (fst (gen_arc s v g)) =
     (if shd (stl (stl g)) < 2 / 10
      then jdiv (Fin 1) (jmul TAU (Fin (of_int (fst (rInt g (numCircles s) 0)))))
      else Fin (shd (stl (stl (stl g))) * (pi / 2)))"
  by (simp add: gen_arc_def split_def Let_def random0_def random1_def PI_def)

lemma gen_arc_ok:
  assumes g: "valid_rng g" and nc: "0 < numCircles s"
  shows "arc_ok (numCircles s) (arcSize s) (fst (gen_arc s v g))"
proof -
  let ?b = "fst (rInt g (numCircles s) 0)"
  have b: "0 \<le> ?b" "?b < numCircles s"
    using rInt_range(2) [OF g, of 0 "numCircles s"] nc by simp_all
  let ?g3 = "stl (stl (stl g))"
  have "valid_rng ?g3"
    using g by (intro valid_rng_stl)
  then have u: "0 \<le> shd ?g3" "shd ?g3 < 1"
    by (simp_all add: valid_rng_shd)
  have "shd ?g3 * (pi / 2) < 1 * (pi / 2)"
    using u(2) pi_gt_zero by (intro mult_strict_right_mono) simp_all
  then have l: "0 \<le> shd ?g3 * (pi / 2)" "shd ?g3 * (pi / 2) < pi / 2"
    using u(1) by simp_all
  have len: "o_len (fst (gen_arc s v g)) = jdiv (Fin 1) (jmul TAU (Fin (of_int ?b)))
             \<or> (\<exists>l. o_len (fst (gen_arc s v g)) = Fin l \<and> 0 \<le> l \<and> l < pi / 2)"
  proof (cases "shd (stl (stl g)) < 2 / 10")
    case True
    then have "o_len (fst (gen_arc s v g)) = jdiv (Fin 1) (jmul TAU (Fin (of_int ?b)))"
      by (simp only: gen_arc_len if_True)
    then show ?thesis by blast
  next
    case False
    then have "o_len (fst (gen_arc s v g)) = Fin (shd ?g3 * (pi / 2))"
      by (simp only: gen_arc_len if_False)
    then show ?thesis using l by blast
  qed
  then have "o_len (fst (gen_arc s v g)) \<noteq> NaN"
    using sliver_not_NaN by auto
  then show ?thesis
    unfolding arc_ok_def using b len gen_arc_col gen_arc_radius by blast
qed

lemma init_globals_eq:
  "70 \<le> fst (rInt g 70 120) \<Longrightarrow>
   init_globals w h g =
     (\<lparr>arcs = [], planets = [], stars = [], numCircles = fst (rInt g 70 120),
       radius = Fin (min w h * (45 / 100)),
       arcSize = Fin (min w h * (45 / 100) / real_of_int (fst (rInt g 70 120))),
       center = \<lparr>c_x = Fin 0, c_y = Fin 0, c_radius = Fin (min w h * (45 / 100)),
                  c_len = Fin (min w h * (45 / 100) / 2)\<rparr>,
       baseHue = Fin (shd (stl g)),
       hueRange = Fin ((shd (stl (stl g)) * (7 / 10 - 2 / 10) + 2 / 10)
                       * (if shd (stl (stl (stl g))) < 5 / 10 then - 1 else 1))\<rparr>,
      stl (stl (stl (stl g))))"
  by (simp add: init_globals_def split_def Let_def random0_def random2_Fin jmin_def min_def)

lemma jmin_Fin [simp]: "jmin (Fin a) (Fin b) = Fin (min a b)"
  by (simp add: jmin_def min_def)

lemma init_generated:
  assumes g: "valid_rng g"
  shows "\<exists>s g'. init w h g = Inr (s, g') \<and> valid_rng g'
          \<and> 70 \<le> numCircles s \<and> numCircles s < 120
          \<and> radius s = Fin (min w h * (45 / 100))
          \<and> arcSize s = Fin (min w h * (45 / 100) / real_of_int (numCircles s))
          \<and> center s = \<lparr>c_x = Fin 0, c_y = Fin 0, c_radius = Fin (min w h * (45 / 100)),
                         c_len = Fin (min w h * (45 / 100) / 2)\<rparr>
          \<and> (\<exists>b r. baseHue s = Fin b \<and> hueRange s = Fin r)
          \<and> length (arcs s) = 2000
          \<and> (\<forall>a \<in> set (arcs s). arc_ok (numCircles s) (arcSize s) a)
          \<and> sorted_wrt (\<lambda>a b. jge (o_len a) (o_len b)) (arcs s)
          \<and> planets_ok (planets s)
          \<and> length (stars s) = 1000"
proof -
  define s0 where "s0 = fst (init_globals w h g)"
  define v where "v = fst (random2 (snd (init_globals w h g)) (Fin (5 / 100)) (Fin (4 / 10)))"
  define g5 where "g5 = snd (random2 (snd (init_globals w h g)) (Fin (5 / 100)) (Fin (4 / 10)))"
  have nc: "70 \<le> fst (rInt g 70 120)" "fst (rInt g 70 120) < 120"
    using rInt_range(1) [OF g, of 70 120] by simp_all
  note eq = init_globals_eq [OF nc(1), of w h]
  have g5: "valid_rng g5"
    unfolding g5_def eq using g by (simp add: valid_rng_stl)
  have s0: "arcs s0 = []" "planets s0 = []" "stars s0 = []" "numCircles s0 = fst (rInt g 70 120)"
      "radius s0 = Fin (min w h * (45 / 100))"
      "arcSize s0 = Fin (min w h * (45 / 100) / real_of_int (numCircles s0))"
      "center s0 = \<lparr>c_x = Fin 0, c_y = Fin 0, c_radius = Fin (min w h * (45 / 100)),
                         c_len = Fin (min w h * (45 / 100) / 2)\<rparr>"
      "\<exists>b r. baseHue s0 = Fin b \<and> hueRange s0 = Fin r"
    unfolding s0_def eq by simp_all
  have s0_arcs: "s0\<lparr>arcs := []\<rparr> = s0"
    using s0(1) by (cases s0) simp
  have step: "arc_ok (numCircles s0) (arcSize s0) (fst (gen_arc s0 v g'))
              \<and> valid_rng (snd (gen_arc s0 v g'))"
    if "valid_rng g'" for g'
    using gen_arc_ok [OF that, of s0 v] gen_arc_rng [OF that, of s0 v] nc by (simp add: s0(4))
  obtain LA where LA: "fst (arcs_gen 0 s0 v g5) = s0\<lparr>arcs := LA\<rparr>" "length LA = numArcs"
      "\<forall>a \<in> set LA. arc_ok (numCircles s0) (arcSize s0) a" "valid_rng (snd (arcs_gen 0 s0 v g5))"
    using arcs_gen_spec [where Q = valid_rng and P = "arc_ok (numCircles s0) (arcSize s0)"
        and s = s0 and v = v and g = g5 and i = 0 and ys = "[]", OF step g5]
    by (auto simp: s0_arcs)
  define g6 where "g6 = snd (arcs_gen 0 s0 v g5)"
  define s2 where "s2 = s0\<lparr>arcs := sort_js cmp_len LA\<rparr>"
  define np where "np = fst (rInt g6 2 7)"
  define g7 where "g7 = snd (rInt g6 2 7)"
  have g7: "valid_rng g7"
    using LA(4) by (simp add: g7_def g6_def valid_rng_stl)
  have "planets_ok (planets s2)" "c_len (center s2) = Fin (min w h * (45 / 100) / 2)"
    by (simp_all add: s2_def s0)
  then obtain LP g8 where LP: "planets_gen 0 np s2 g7 = Inr (s2\<lparr>planets := LP\<rparr>, g8)"
      "planets_ok LP" "valid_rng g8"
    using planets_gen_spec [OF g7, where s = s2 and c = "min w h * (45 / 100) / 2" and i = 0 and n = np]
    by (auto simp: s2_def s0)
  define s3 where "s3 = s2\<lparr>planets := LP\<rparr>"
  have s3_stars: "s3\<lparr>stars := []\<rparr> = s3"
    using s0(3) by (cases s0) (simp add: s3_def s2_def)
  obtain LS where LS: "fst (stars_gen 0 w h s3 g8) = s3\<lparr>stars := LS\<rparr>" "length LS = 1000"
      "valid_rng (snd (stars_gen 0 w h s3 g8))"
    using stars_gen_spec [OF LP(3), where i = 0 and w = w and h = h and s = s3 and ys = "[]"]
    by (auto simp: s3_stars)
  have s2: "s2 = (fst (arcs_gen 0 s0 v g5))\<lparr>arcs := sort_js cmp_len (arcs (fst (arcs_gen 0 s0 v g5)))\<rparr>"
    by (simp add: LA(1) s2_def)
  have init: "init w h g = Inr (stars_gen 0 w h s3 g8)"
    unfolding init_def split_def Let_def
    unfolding s0_def [symmetric] v_def [symmetric] g5_def [symmetric]
    unfolding g6_def [symmetric] s2 [symmetric]
    unfolding np_def [symmetric] g7_def [symmetric] LP(1)
    by (simp add: s3_def)
  have nan: "\<forall>a \<in> set LA. o_len a \<noteq> NaN"
    using LA(3) by (simp add: arc_ok_def)
  have fields: "numCircles s3 = numCircles s0" "radius s3 = radius s0" "arcSize s3 = arcSize s0"
      "center s3 = center s0" "baseHue s3 = baseHue s0" "hueRange s3 = hueRange s0"
      "arcs s3 = sort_js cmp_len LA" "planets s3 = LP"
    by (simp_all add: s3_def s2_def)
  let ?s = "s3\<lparr>stars := LS\<rparr>"
  let ?g = "snd (stars_gen 0 w h s3 g8)"
  have "init w h g = Inr (?s, ?g)"
    using init LS(1) by (metis prod.collapse)
  moreover have "valid_rng ?g"
    by (rule LS(3))
  moreover have "sorted_wrt (\<lambda>a b. jge (o_len a) (o_len b)) (arcs ?s)"
    using nan by (simp add: fields sorted_sort_js)
  moreover have "\<forall>a \<in> set (arcs ?s). arc_ok (numCircles ?s) (arcSize ?s) a"
    using LA(3) by (simp add: fields)
  ultimately show ?thesis
    using nc s0(4-8) LA(2) LP(2) LS(2)
    by (intro exI [of _ ?s] exI [of _ ?g]) (simp add: fields numArcs_def)
qed

lemma demo_globals_eq:
  "demo_globals =
     \<lparr>arcs = [], planets = [], stars = [], numCircles = 70, radius = Fin 270,
      arcSize = Fin (27 / 7),
      center = \<lparr>c_x = Fin 0, c_y = Fin 0, c_radius = Fin 270, c_len = Fin 135\<rparr>,
      baseHue = Fin (1 / 10), hueRange = Fin (- (1 / 2))\<rparr>"
  by (simp add: demo_globals_def demo_rng_def init_globals_def rInt_def random0_def random2_Fin
      split_def Let_def)

subsection \<open>The ellipse loop ends on a finite length\<close>

lemma planet_ellipses_bounded:
  "l < real n * (if md then 2 / 3 else 2) \<Longrightarrow> \<exists>ops. planet_ellipses s md ob percent (Fin l) = Some ops"
proof (induction n arbitrary: l)
  case 0
  then have "l < 0" by simp
  then show ?case
    by (subst planet_ellipses.simps) (simp add: jge_def jle_def)
next
  case (Suc n)
  show ?case
  proof (cases "0 \<le> l")
    case False
    then show ?thesis
      by (subst planet_ellipses.simps) (simp add: jge_def jle_def)
  next
    case True
    let ?step = "if md then 2 / 3 else (2::real)"
    have "l - ?step < real n * ?step"
      using Suc.prems by (simp add: algebra_simps split: if_splits)
    then obtain ops where ops: "planet_ellipses s md ob percent (Fin (l - ?step)) = Some ops"
      using Suc.IH by blast
    have step: "jsub (Fin l) (if md then jdiv (Fin 2) zoomScale else Fin 2) = Fin (l - ?step)"
      by (simp add: jsub_def zoomScale_def)
    show ?thesis
      by (subst planet_ellipses.simps) (simp add: step ops Let_def)
  qed
qed

lemma planet_ellipses_Fin: "\<exists>ops. planet_ellipses s md ob percent (Fin l) = Some ops"
proof -
  let ?step = "if md then 2 / 3 else (2::real)"
  have "0 < ?step" by simp
  then obtain n where "l < real n * ?step"
    using ex_less_of_nat_mult by blast
  then show ?thesis
    by (rule planet_ellipses_bounded)
qed

lemma planet_ellipses_returns:
  assumes "i \<noteq> PInf"
  shows "\<exists>ops. planet_ellipses s md ob percent i = Some ops"
proof (cases i)
  case (Fin l)
  then show ?thesis by (simp add: planet_ellipses_Fin)
next
  case PInf
  then show ?thesis using assms by simp
next
  case NInf
  then show ?thesis
    by (subst planet_ellipses.simps) (simp add: jge_def jle_def)
next
  case NaN
  then show ?thesis
    by (subst planet_ellipses.simps) (simp add: jge_def jle_def)
qed

lemma planet_ellipses_Some_finite:
  assumes "planet_ellipses s md ob percent i = Some ops"
  shows "i \<noteq> PInf"
proof (rule planet_ellipses.raw_induct [where P = "\<lambda>_ _ _ _ i _. i \<noteq> PInf", OF _ assms])
  fix f s md ob percent i ops
  assume IH: "\<And>s md ob percent i ops. f s md ob percent i = Some ops \<Longrightarrow> i \<noteq> PInf"
    and body: "(if jge i (Fin 0)
      then let amt = jdiv i (o_len ob);
               amt2 = jadd (jmul (jsub (Fin 1) (jpow amt 5)) percent) (jsub (Fin 1) percent)
           in Option.bind
               (f s md ob percent (jsub i (if md then jdiv (Fin 2) zoomScale else Fin 2)))
               (\<lambda>rest. Some
                    ([Fill (colorMap s amt2 (case o_hue ob of None \<Rightarrow> Fin 0 | Some h \<Rightarrow> h)),
                      Ellipse4
                       (jsub (jadd (jdiv (jmul (jneg (o_len ob)) amt) (Fin 2))
                           (jdiv (o_len ob) (Fin 2))) (Fin 1))
                       (Fin 0) (jmul (o_len ob) amt)
                       (jmul (jsin (jdiv (jmul amt PI) (Fin 2))) (o_len ob))] @ rest))
      else Some []) = Some ops"
  show "i \<noteq> PInf"
  proof
    assume i: "i = PInf"
    have "jsub PInf (if md then jdiv (Fin 2) zoomScale else Fin 2) = PInf"
      by (simp add: jsub_def zoomScale_def)
    with body i obtain rest where "f s md ob percent PInf = Some rest"
      by (auto simp: jge_def jle_def Let_def Option.bind_eq_Some_conv)
    then show False
      using IH by blast
  qed
qed

lemma planet_ellipses_PInf: "planet_ellipses s md ob percent PInf = None"
  using planet_ellipses_Some_finite [of s md ob percent PInf] by (cases "planet_ellipses s md ob percent PInf") auto

subsection \<open>One tick of the arcs\<close>

lemma arc_tick_ok: "o_col ob \<noteq> None \<Longrightarrow> \<exists>ops. arc_tick ob = Inr (ops, advance ob)"
  by (auto simp: arc_tick_def advance_def Let_def)

lemma arcs_tick_ok:
  "\<forall>a \<in> set obs. o_col a \<noteq> None \<Longrightarrow> \<exists>ops. arcs_tick obs = Inr (ops, map advance obs)"
proof (induction obs)
  case Nil
  then show ?case by simp
next
  case (Cons ob obs)
  obtain ops where "arc_tick ob = Inr (ops, advance ob)"
    using Cons.prems arc_tick_ok by fastforce
  moreover obtain ops' where "arcs_tick obs = Inr (ops', map advance obs)"
    using Cons by auto
  ultimately show ?case by simp
qed

subsection \<open>One tick of the planets\<close>

lemma drawable_placed [simp]:
  "drawable n (p\<lparr>o_angle := a, o_x := xv, o_y := yv\<rparr>) = drawable n p"
  by (simp add: drawable_def)

lemma planet_tick_ok:
  assumes "i < length (planets s)" and "drawable (length (planets s)) (planets s ! i)"
  shows "\<exists>ops xv yv. planet_tick e i s =
           Ok (ops, (advance (planets s ! i))\<lparr>o_x := Some xv, o_y := Some yv\<rparr>)"
proof -
  let ?ob1 = "(planets s ! i)\<lparr>o_angle := jadd (o_angle (planets s ! i)) (o_speed (planets s ! i))\<rparr>"
  let ?s1 = "s\<lparr>planets := (planets s)[i := ?ob1]\<rparr>"
  obtain tx ty where t: "target_xy ?s1 (o_target ?ob1) = Inr (tx, ty)"
    using assms(2)
    by (auto simp: drawable_def target_xy_def split: option.splits target.splits)
  let ?xv = "jadd (jmul (jcos (o_angle ?ob1)) (o_radius ?ob1)) (num_of tx)"
  let ?yv = "jadd (jmul (jsin (o_angle ?ob1)) (o_radius ?ob1)) (num_of ty)"
  let ?ob2 = "?ob1\<lparr>o_x := Some ?xv, o_y := Some ?yv\<rparr>"
  let ?percent = "jsub (Fin 1) (jmul (jdiv (hypot ?xv ?yv) (radius s)) (Fin (4 / 10)))"
  have "o_len ?ob2 \<noteq> PInf"
    using assms(2) by (simp add: drawable_def)
  then obtain els where els: "planet_ellipses s (mouseDown e) ?ob2 ?percent (o_len ?ob2) = Some els"
    using planet_ellipses_returns by blast
  have "planet_tick e i s =
          Ok (pushPop ([Translate ?xv ?yv, Rotate (atan2 ?yv ?xv), NoStroke] @ els), ?ob2)"
    unfolding planet_tick_def Let_def t using els by simp
  then show ?thesis
    unfolding advance_def by blast
qed

lemma planets_tick_ok:
  assumes "\<forall>p \<in> set (planets s). drawable (length (planets s)) p"
  shows "\<exists>ops ps. planets_tick e i s = Ok (ops, s\<lparr>planets := ps\<rparr>)
          \<and> length ps = length (planets s)
          \<and> (\<forall>j < length ps.
                if j < i then ps ! j = planets s ! j
                else (\<exists>xv yv. ps ! j = (advance (planets s ! j))\<lparr>o_x := Some xv, o_y := Some yv\<rparr>))"
  using assms
proof (induction "length (planets s) - i" arbitrary: i s)
  case 0
  then have "\<not> i < length (planets s)" by simp
  then have "planets_tick e i s = Ok ([], s)"
    by (subst planets_tick.simps) simp
  moreover have "s\<lparr>planets := planets s\<rparr> = s"
    by simp
  ultimately show ?case
    using \<open>\<not> i < length (planets s)\<close>
    by (intro exI [of _ "[]"] exI [of _ "planets s"]) simp
next
  case (Suc n)
  have lt: "i < length (planets s)"
    using Suc.hyps(2) by simp
  then have dr: "drawable (length (planets s)) (planets s ! i)"
    using Suc.prems by simp
  obtain ops xv yv where tick: "planet_tick e i s =
      Ok (ops, (advance (planets s ! i))\<lparr>o_x := Some xv, o_y := Some yv\<rparr>)"
    using planet_tick_ok [OF lt dr] by blast
  let ?ob = "(advance (planets s ! i))\<lparr>o_x := Some xv, o_y := Some yv\<rparr>"
  let ?s1 = "s\<lparr>planets := (planets s)[i := ?ob]\<rparr>"
  have n: "n = length (planets ?s1) - Suc i"
    using Suc.hyps(2) by simp
  have "drawable (length (planets s)) ?ob"
    using dr by (simp add: advance_def)
  then have dr1: "\<forall>p \<in> set (planets ?s1). drawable (length (planets ?s1)) p"
    using Suc.prems by (auto dest!: set_update_subset_insert [THEN subsetD])
  obtain ops' ps where rest: "planets_tick e (Suc i) ?s1 = Ok (ops', ?s1\<lparr>planets := ps\<rparr>)"
      "length ps = length (planets ?s1)"
      "\<forall>j < length ps.
          if j < Suc i then ps ! j = planets ?s1 ! j
          else (\<exists>xv yv. ps ! j = (advance (planets ?s1 ! j))\<lparr>o_x := Some xv, o_y := Some yv\<rparr>)"
    using Suc.hyps(1) [OF n dr1] by blast
  have run: "planets_tick e i s = Ok (ops @ ops', s\<lparr>planets := ps\<rparr>)"
    using lt tick rest(1) by (subst planets_tick.simps) simp
  have "if j < i then ps ! j = planets s ! j
        else (\<exists>xv yv. ps ! j = (advance (planets s ! j))\<lparr>o_x := Some xv, o_y := Some yv\<rparr>)"
    if j: "j < length ps" for j
  proof -
    consider "j < i" | "j = i" | "i < j" by linarith
    then show ?thesis
    proof cases
      case 1
      then show ?thesis using rest(3) j by auto
    next
      case 2
      then have "ps ! j = ?ob"
        using rest(3) j lt by auto
      then show ?thesis using 2 by auto
    next
      case 3
      then show ?thesis using rest(3) j by auto
    qed
  qed
  then show ?case
    using run rest(2) by (intro exI [of _ "ops @ ops'"] exI [of _ ps]) simp
qed

text \<open>The whole tick.\<close>

lemma draw_ok:
  assumes "\<forall>a \<in> set (arcs s). o_col a \<noteq> None"
    and "\<forall>p \<in> set (planets s). drawable (length (planets s)) p"
  shows "\<exists>ops ps. draw noise e s = Ok (ops, s\<lparr>arcs := map advance (arcs s), planets := ps\<rparr>)
          \<and> length ps = length (planets s)
          \<and> (\<forall>j < length ps. \<exists>xv yv.
                ps ! j = (advance (planets s ! j))\<lparr>o_x := Some xv, o_y := Some yv\<rparr>)"
proof -
  obtain aops where a: "arcs_tick (arcs s) = Inr (aops, map advance (arcs s))"
    using arcs_tick_ok [OF assms(1)] by blast
  let ?s1 = "s\<lparr>arcs := map advance (arcs s)\<rparr>"
  have "\<forall>p \<in> set (planets ?s1). drawable (length (planets ?s1)) p"
    using assms(2) by simp
  then obtain pops ps where p: "planets_tick e 0 ?s1 = Ok (pops, ?s1\<lparr>planets := ps\<rparr>)"
      "length ps = length (planets ?s1)"
      "\<forall>j < length ps.
          if j < 0 then ps ! j = planets ?s1 ! j
          else (\<exists>xv yv. ps ! j = (advance (planets ?s1 ! j))\<lparr>o_x := Some xv, o_y := Some yv\<rparr>)"
    using planets_tick_ok [of ?s1 e 0] by blast
  obtain ops where "draw noise e s = Ok (ops, ?s1\<lparr>planets := ps\<rparr>)"
    by (simp add: draw_def a p(1))
  moreover have "length ps = length (planets s)"
    using p(2) by simp
  moreover have "\<forall>j < length ps. \<exists>xv yv.
      ps ! j = (advance (planets s ! j))\<lparr>o_x := Some xv, o_y := Some yv\<rparr>"
    using p(3) by simp
  ultimately show ?thesis
    by (intro exI [of _ ops] exI [of _ ps] conjI)
qed

lemma valid_rng_half: "valid_rng (sconst (1 / 2))"
  by (simp add: valid_rng_def)

subsection \<open>p5's noise\<close>

text \<open>
  With a table the star loop leaves the state as it is; without one, its first call of
  \<^verbatim>\<open>noise\<close> takes 4096 values from the random source. Either way the frame is the one that
  \<open>draw\<close> gives for the noise function of the table in force.
\<close>

lemma stars_pass_Some:
  "stars_pass (Some t) g e sts = (concat (map (star_ops (noise_value t) e) sts), Some t, g)"
  by (induction sts) (simp_all add: p5_noise_def star_ops_def Let_def)

lemma stars_pass_None:
  "stars_pass None g e (st # sts)
     = (concat (map (star_ops (noise_value (stake 4096 g)) e) (st # sts)),
        Some (stake 4096 g), sdrop 4096 g)"
  by (simp add: p5_noise_def star_ops_def Let_def stars_pass_Some del: stake.simps sdrop.simps)

lemma draw_with_noise_eq:
  assumes "stars_pass perlin g e (stars s) = (concat (map (star_ops n e) (stars s)), perlin', g')"
  shows "draw_with_noise perlin g e s = (draw n e s, perlin', g')"
  by (simp add: draw_with_noise_def draw_def assms)

lemma draw_with_noise_Some:
  "draw_with_noise (Some t) g e s = (draw (noise_value t) e s, Some t, g)"
  by (rule draw_with_noise_eq) (rule stars_pass_Some)

lemma draw_with_noise_None:
  assumes "stars s = st # sts"
  shows "draw_with_noise None g e s
     = (draw (noise_value (stake 4096 g)) e s, Some (stake 4096 g), sdrop 4096 g)"
  by (rule draw_with_noise_eq) (simp only: assms stars_pass_None)

lemma stake_sconst: "stake n (sconst c) = replicate n c"
  by (simp add: map_replicate_const)

lemma perlin_at_replicate: "perlin_at (replicate 4096 c) i = Fin c"
  by (simp add: perlin_at_def Let_def)

lemma octaves_const:
  assumes "\<And>i. perlin_at t i = Fin c"
  shows "octaves k t xi yi zi xf yf zf (Fin r) ampl = Fin (r + c * ampl * (2 - 2 * (1 / 2) ^ k))"
proof (induction k arbitrary: xi yi zi xf yf zf r ampl)
  case 0
  then show ?case by simp
next
  case (Suc k)
  show ?case
    by (simp add: assms Let_def split_def jsub_def Suc.IH algebra_simps)
qed

lemma noise_value_const:
  "noise_value (replicate 4096 c) (Fin x) (Fin y) = Fin (c * (15 / 16))"
  by (simp add: Let_def octaves_const [OF perlin_at_replicate] power_divide del: octaves.simps)

lemma draw_star_ops:
  assumes "draw n1 e s = Ok (ops1, s1)" and "draw n2 e s = Ok (ops2, s2)" and "ops1 = ops2"
  shows "concat (map (star_ops n1 e) (stars s)) = concat (map (star_ops n2 e) (stars s))"
proof -
  obtain aops arcs' where a: "arcs_tick (arcs s) = Inr (aops, arcs')"
    using assms(1) unfolding draw_def by (cases "arcs_tick (arcs s)") auto
  obtain pops s'' where p: "planets_tick e 0 (s\<lparr>arcs := arcs'\<rparr>) = Ok (pops, s'')"
    using assms(1) by (cases "planets_tick e 0 (s\<lparr>arcs := arcs'\<rparr>)") (auto simp: draw_def a)
  let ?pre = "[Background (Fin 0)]
              @ (if mouseDown e
                 then [Translate (jdiv (Fin (width e)) (Fin 2)) (jdiv (Fin (height e)) (Fin 2)),
                       Scale zoomScale,
                       Translate (jneg (Fin (mouseX e))) (jneg (Fin (mouseY e)))]
                 else [])
              @ [Push, Translate (jdiv (Fin (width e)) (Fin 2)) (jdiv (Fin (height e)) (Fin 2)),
                 NoStroke]
              @ rings s (numCircles s)
              @ [Push, Translate (jdiv (jneg (Fin (width e))) (Fin 2))
                         (jdiv (jneg (Fin (height e))) (Fin 2)), BlendMode ADD]"
  let ?post = "[Pop, NoFill, StrokeWeight (arcSize s)] @ aops @ pops @ [Pop]"
  have 1: "ops1 = ?pre @ concat (map (star_ops n1 e) (stars s)) @ ?post"
    using assms(1) by (simp add: draw_def a p pushPop_def)
  have 2: "ops2 = ?pre @ concat (map (star_ops n2 e) (stars s)) @ ?post"
    using assms(2) by (simp add: draw_def a p pushPop_def)
  have "?pre @ concat (map (star_ops n1 e) (stars s)) @ ?post
        = ?pre @ concat (map (star_ops n2 e) (stars s)) @ ?post"
    using assms(3) unfolding 1 2 .
  then show ?thesis
    by (simp only: same_append_eq append_same_eq)
qed

lemma demo_stars:
  "concat (map (star_ops (noise_value (replicate 4096 c)) demo_env) (stars demo_scene))
     = [Stroke3 (Fin (1 / 5)) (Fin (1 / 2)) (Fin (c * (15 / 16) * (7 / 10))),
        Line (Fin (10 - 3 / 2)) (Fin 20) (Fin (10 + 3 / 2)) (Fin 20),
        Line (Fin 10) (Fin (20 - 3 / 2)) (Fin 10) (Fin (20 + 3 / 2))]"
  by (simp add: demo_scene_def demo_env_def star_ops_def Let_def noise_value_const jsub_def
      del: noise_value.simps)

lemma demo_draw_Ok: "\<exists>ops s'. draw n demo_env demo_scene = Ok (ops, s')"
proof -
  have "\<forall>a \<in> set (arcs demo_scene). o_col a \<noteq> None"
    by (simp add: demo_scene_def)
  moreover have "\<forall>p \<in> set (planets demo_scene). drawable (length (planets demo_scene)) p"
    by (simp add: demo_scene_def drawable_def)
  ultimately show ?thesis
    using draw_ok by blast
qed

section \<open>The claims\<close>

subsection \<open>C1: the angular length of an arc\<close>

text \<open>
  C1 says that every generated arc has an angular length that is the sliver
  \<^verbatim>\<open>1/(2*pi*bucket)\<close> or a value in \<open>[0, pi/2]\<close>, and so a finite non-negative real.
  \<open>gen_arc_ok\<close> above gives the two cases. The sliver is not finite when the bucket is 0:
  on an 800 by 600 canvas, with \<^verbatim>\<open>Math.random\<close> returning 0, 0.1, 0.6, 0.4 and then 0 for
  ever, the first arc that \<^verbatim>\<open>init\<close> generates draws bucket 0, takes the sliver branch and
  stores the length \<^verbatim>\<open>1/(TAU*0)\<close>, which is \<^verbatim>\<open>Infinity\<close>.
\<close>

theorem first_arc_infinite_len:
  "(let (s0, g4) = init_globals 800 600 demo_rng;
        (variance, g5) = random2 g4 (Fin (5 / 100)) (Fin (4 / 10))
    in o_len (fst (gen_arc s0 variance g5))) = PInf"
  by (simp add: demo_rng_def init_globals_def rInt_def random0_def random2_Fin split_def Let_def
      gen_arc_len TAU_def)

subsection \<open>C2: planets target the centre or an earlier planet\<close>

lemma planets_ok_reaches:
  assumes "planets_ok ps"
  shows "i < length ps \<Longrightarrow> i < fuel \<Longrightarrow> reaches_center ps fuel i"
proof (induction fuel arbitrary: i)
  case 0
  then show ?case by simp
next
  case (Suc fuel)
  from assms Suc.prems(1)
  consider "o_target (ps ! i) = Some Center" | k where "k < i" "o_target (ps ! i) = Some (Planet k)"
    unfolding planets_ok_def by blast
  then show ?case
  proof cases
    case 1
    then show ?thesis using Suc.prems by simp
  next
    case 2
    then have "reaches_center ps fuel k"
      using Suc.prems by (intro Suc.IH) simp_all
    then show ?thesis using 2 Suc.prems by simp
  qed
qed

text \<open>
  C2: for every random sequence, \<^verbatim>\<open>init\<close> returns a scene in which the target of the planet
  at index \<open>i\<close> is the centre or the planet at some index \<open>k < i\<close> (never itself, never a
  later one), and following the target links from planet \<open>i\<close> arrives at the centre in at
  most \<open>i + 1\<close> steps.
\<close>

theorem init_planet_targets:
  assumes "valid_rng g"
  shows "\<exists>s g'. init w h g = Inr (s, g')
          \<and> (\<forall>i < length (planets s).
                (o_target (planets s ! i) = Some Center
                 \<or> (\<exists>k < i. o_target (planets s ! i) = Some (Planet k)))
              \<and> reaches_center (planets s) (Suc i) i)"
proof -
  obtain s g' where s: "init w h g = Inr (s, g')" "planets_ok (planets s)"
    using init_generated [OF assms, of w h] by blast
  have "\<forall>i < length (planets s).
                (o_target (planets s ! i) = Some Center
                 \<or> (\<exists>k < i. o_target (planets s ! i) = Some (Planet k)))
              \<and> reaches_center (planets s) (Suc i) i"
  proof (intro allI impI conjI)
    fix i
    assume i: "i < length (planets s)"
    show "o_target (planets s ! i) = Some Center
          \<or> (\<exists>k < i. o_target (planets s ! i) = Some (Planet k))"
      using s(2) i unfolding planets_ok_def by blast
    show "reaches_center (planets s) (Suc i) i"
      using i by (intro planets_ok_reaches [OF s(2)]) simp_all
  qed
  then show ?thesis
    using s(1) by blast
qed

theorem init_planet_targets_witness:
  "\<exists>s g'. init 800 600 (sconst (1 / 2)) = Inr (s, g')
          \<and> (\<forall>i < length (planets s).
                (o_target (planets s ! i) = Some Center
                 \<or> (\<exists>k < i. o_target (planets s ! i) = Some (Planet k)))
              \<and> reaches_center (planets s) (Suc i) i)"
  by (rule init_planet_targets [OF valid_rng_half])

subsection \<open>C3: the hue of the palette\<close>

text \<open>
  C3 says that the hue that \<^verbatim>\<open>colorMap\<close> returns is the sum reduced modulo 1 and so lies in
  \<open>[0, 1)\<close>. The operator \<^verbatim>\<open>%\<close> keeps the sign of the dividend: with base hue 0.1 and hue
  range -0.5 (the globals of \<open>demo_globals\<close>), progress 1 and no shift, the sum is -0.4 and
  so is the hue returned.
\<close>

theorem colorMap_negative_hue:
  "fst (colorMap demo_globals (Fin 1) (Fin 0)) = Fin (- (2 / 5))"
  by (simp add: demo_globals_eq colorMap_def trunc_def)

text \<open>
  The value is stored: an arc generated over those globals in the outermost bucket, its
  progress clamped to 1, carries the hue -0.4.
\<close>

lemma gen_arc_negative_hue:
  "o_col (fst (gen_arc demo_globals (Fin (3 / 10)) (sconst (99 / 100))))
     = Some (Fin (- (2 / 5)), Fin 1, Fin 0)"
  by (simp add: demo_globals_eq gen_arc_def rInt_def random2_def random0_def random1_def Let_def
      jgt_def jsub_def constrain_def jmin_def jmax_def colorMap_def trunc_def split_def)

subsection \<open>C4: the arcs are sorted by descending length\<close>

text \<open>
  C4: for every random sequence, \<^verbatim>\<open>init\<close> returns a scene whose arcs are in non-increasing
  order of angular length: for indices \<open>i < j\<close> the length at \<open>i\<close> is greater than or equal
  to the length at \<open>j\<close>, in the sense of JavaScript's \<^verbatim>\<open>>=\<close>.
\<close>

theorem init_arcs_sorted:
  assumes "valid_rng g"
  shows "\<exists>s g'. init w h g = Inr (s, g')
          \<and> (\<forall>i j. i < j \<and> j < length (arcs s)
                 \<longrightarrow> jge (o_len (arcs s ! i)) (o_len (arcs s ! j)))"
proof -
  obtain s g' where s: "init w h g = Inr (s, g')"
      "sorted_wrt (\<lambda>a b. jge (o_len a) (o_len b)) (arcs s)"
    using init_generated [OF assms, of w h] by blast
  then show ?thesis
    by (auto simp: sorted_wrt_iff_nth_less)
qed

theorem init_arcs_sorted_witness:
  "\<exists>s g'. init 800 600 (sconst (1 / 2)) = Inr (s, g')
          \<and> (\<forall>i j. i < j \<and> j < length (arcs s)
                 \<longrightarrow> jge (o_len (arcs s ! i)) (o_len (arcs s ! j)))"
  by (rule init_arcs_sorted [OF valid_rng_half])

subsection \<open>C5: the effect of one tick on the scene\<close>

text \<open>
  C5: on a scene whose arcs have a colour and whose planets are drawable (every scene that
  \<^verbatim>\<open>init\<close> returns, and every scene that \<^verbatim>\<open>draw\<close> returns from such a scene; see
  \<open>init_drawable\<close> and \<open>draw_keeps_drawable\<close> below), one call of \<^verbatim>\<open>draw\<close> returns, and the
  scene it leaves is the old one with the angle of every arc and of every planet advanced
  by that object's speed once. No other field of an arc changes; of a planet only the
  position \<^verbatim>\<open>x\<close>, \<^verbatim>\<open>y\<close> changes besides; the stars and the other globals are the same.
\<close>

theorem draw_advances_angles:
  assumes "\<forall>a \<in> set (arcs s). o_col a \<noteq> None"
    and "\<forall>p \<in> set (planets s). drawable (length (planets s)) p"
  shows "\<exists>ops ps. draw noise e s = Ok (ops, s\<lparr>arcs := map advance (arcs s), planets := ps\<rparr>)
          \<and> length ps = length (planets s)
          \<and> (\<forall>j < length ps. \<exists>xv yv.
                ps ! j = (advance (planets s ! j))\<lparr>o_x := Some xv, o_y := Some yv\<rparr>)"
  using assms by (rule draw_ok)

theorem draw_advances_angles_witness:
  "\<exists>ops ps. draw (\<lambda>a b. Fin (1 / 2)) demo_env demo_scene
               = Ok (ops, demo_scene\<lparr>arcs := map advance (arcs demo_scene), planets := ps\<rparr>)
          \<and> length ps = length (planets demo_scene)
          \<and> (\<forall>j < length ps. \<exists>xv yv.
                ps ! j = (advance (planets demo_scene ! j))\<lparr>o_x := Some xv, o_y := Some yv\<rparr>)"
proof -
  have "\<forall>a \<in> set (arcs demo_scene). o_col a \<noteq> None"
    by (simp add: demo_scene_def)
  moreover have "\<forall>p \<in> set (planets demo_scene). drawable (length (planets demo_scene)) p"
    by (simp add: demo_scene_def drawable_def)
  ultimately show ?thesis
    by (rule draw_advances_angles)
qed

text \<open>The scenes that \<^verbatim>\<open>init\<close> returns meet the two conditions, and a tick keeps them.\<close>

lemma init_drawable:
  assumes "valid_rng g"
  shows "\<exists>s g'. init w h g = Inr (s, g') \<and> (\<forall>a \<in> set (arcs s). o_col a \<noteq> None)
          \<and> (\<forall>p \<in> set (planets s). drawable (length (planets s)) p)"
proof -
  obtain s g' where s: "init w h g = Inr (s, g')"
      "\<forall>a \<in> set (arcs s). arc_ok (numCircles s) (arcSize s) a" "planets_ok (planets s)"
    using init_generated [OF assms, of w h] by blast
  have "drawable (length (planets s)) p" if "p \<in> set (planets s)" for p
  proof -
    from that obtain i where i: "i < length (planets s)" "p = planets s ! i"
      unfolding in_set_conv_nth by blast
    then have "(\<exists>l. o_len p = Fin l)
        \<and> (o_target p = Some Center \<or> (\<exists>k < i. o_target p = Some (Planet k)))"
      using s(3) unfolding planets_ok_def by blast
    then show ?thesis
      using i(1) unfolding drawable_def by force
  qed
  moreover have "\<forall>a \<in> set (arcs s). o_col a \<noteq> None"
    using s(2) unfolding arc_ok_def by blast
  ultimately show ?thesis
    using s(1) by blast
qed

lemma draw_keeps_drawable:
  assumes "\<forall>a \<in> set (arcs s). o_col a \<noteq> None"
    and "\<forall>p \<in> set (planets s). drawable (length (planets s)) p"
    and "draw noise e s = Ok (ops, s')"
  shows "(\<forall>a \<in> set (arcs s'). o_col a \<noteq> None)
       \<and> (\<forall>p \<in> set (planets s'). drawable (length (planets s')) p)"
proof -
  obtain ops' ps where d: "draw noise e s = Ok (ops', s\<lparr>arcs := map advance (arcs s), planets := ps\<rparr>)"
      "length ps = length (planets s)"
      "\<forall>j < length ps. \<exists>xv yv.
                ps ! j = (advance (planets s ! j))\<lparr>o_x := Some xv, o_y := Some yv\<rparr>"
    using draw_ok [OF assms(1,2)] by blast
  then have s': "s' = s\<lparr>arcs := map advance (arcs s), planets := ps\<rparr>"
    using assms(3) by simp
  have "drawable (length ps) p" if "p \<in> set ps" for p
  proof -
    from that obtain j where j: "j < length ps" "p = ps ! j"
      unfolding in_set_conv_nth by blast
    then obtain xv yv where "p = (advance (planets s ! j))\<lparr>o_x := Some xv, o_y := Some yv\<rparr>"
      using d(3) by blast
    moreover have "drawable (length (planets s)) (planets s ! j)"
      using assms(2) j(1) d(2) by simp
    ultimately show ?thesis
      using d(2) by (simp add: advance_def drawable_def)
  qed
  moreover have "\<forall>a \<in> set (map advance (arcs s)). o_col a \<noteq> None"
    using assms(1) by (simp add: advance_def)
  ultimately show ?thesis
    unfolding s' by simp
qed

text \<open>
  Two ticks in succession, with any pointer state and frame counter at each, advance every
  angle by the speed twice.
\<close>

lemma advance_placed:
  "advance (p\<lparr>o_x := xv, o_y := yv\<rparr>) = (advance p)\<lparr>o_x := xv, o_y := yv\<rparr>"
  by (simp add: advance_def)

lemma draw_twice:
  assumes "\<forall>a \<in> set (arcs s). o_col a \<noteq> None"
    and "\<forall>p \<in> set (planets s). drawable (length (planets s)) p"
  shows "\<exists>ops1 s1 ops2 s2. draw noise e1 s = Ok (ops1, s1) \<and> draw noise e2 s1 = Ok (ops2, s2)
          \<and> arcs s2 = map (advance \<circ> advance) (arcs s)
          \<and> length (planets s2) = length (planets s)
          \<and> (\<forall>j < length (planets s). \<exists>xv yv.
                planets s2 ! j = (advance (advance (planets s ! j)))\<lparr>o_x := Some xv, o_y := Some yv\<rparr>)
          \<and> stars s2 = stars s"
proof -
  obtain ops1 ps1 where d1: "draw noise e1 s = Ok (ops1, s\<lparr>arcs := map advance (arcs s), planets := ps1\<rparr>)"
      "length ps1 = length (planets s)"
      "\<forall>j < length ps1. \<exists>xv yv.
          ps1 ! j = (advance (planets s ! j))\<lparr>o_x := Some xv, o_y := Some yv\<rparr>"
    using draw_ok [OF assms] by blast
  let ?s1 = "s\<lparr>arcs := map advance (arcs s), planets := ps1\<rparr>"
  have keep: "(\<forall>a \<in> set (arcs ?s1). o_col a \<noteq> None)
       \<and> (\<forall>p \<in> set (planets ?s1). drawable (length (planets ?s1)) p)"
    using draw_keeps_drawable [OF assms d1(1)] .
  obtain ops2 ps2 where d2: "draw noise e2 ?s1 = Ok (ops2, ?s1\<lparr>arcs := map advance (arcs ?s1), planets := ps2\<rparr>)"
      "length ps2 = length (planets ?s1)"
      "\<forall>j < length ps2. \<exists>xv yv.
          ps2 ! j = (advance (planets ?s1 ! j))\<lparr>o_x := Some xv, o_y := Some yv\<rparr>"
    using draw_ok [OF conjunct1 [OF keep] conjunct2 [OF keep]] by blast
  let ?s2 = "?s1\<lparr>arcs := map advance (arcs ?s1), planets := ps2\<rparr>"
  have "\<exists>xv yv. planets ?s2 ! j = (advance (advance (planets s ! j)))\<lparr>o_x := Some xv, o_y := Some yv\<rparr>"
    if j: "j < length (planets s)" for j
  proof -
    obtain xv yv where 1: "ps1 ! j = (advance (planets s ! j))\<lparr>o_x := Some xv, o_y := Some yv\<rparr>"
      using d1(2,3) j by auto
    obtain xv' yv' where 2: "ps2 ! j = (advance (ps1 ! j))\<lparr>o_x := Some xv', o_y := Some yv'\<rparr>"
      using d1(2) d2(2,3) j by auto
    have "planets ?s2 ! j = (advance (advance (planets s ! j)))\<lparr>o_x := Some xv', o_y := Some yv'\<rparr>"
      by (simp add: 1 2 advance_placed)
    then show ?thesis
      by blast
  qed
  moreover have "arcs ?s2 = map (advance \<circ> advance) (arcs s)"
    by simp
  moreover have "length (planets ?s2) = length (planets s)" "stars ?s2 = stars s"
    using d1(2) d2(2) by simp_all
  ultimately show ?thesis
    using d1(1) d2(1) by blast
qed

subsection \<open>C6: the background rings\<close>

lemma rings_eq:
  "rings s n =
     concat (map (\<lambda>i. [Fill (colorMap s (jmul (jdiv (Fin (of_int i)) (Fin (of_int (numCircles s))))
                                        (Fin (9 / 10))) (Fin 0)),
                         Ellipse3 (Fin 0) (Fin 0) (jmul (jmul (Fin (of_int i)) (arcSize s)) (Fin 2))])
               (rev [0..n]))"
proof (induction "nat (n + 1)" arbitrary: n)
  case 0
  then have "n < 0" by simp
  then show ?case
    by (subst rings.simps) simp
next
  case (Suc m)
  then have n: "0 \<le> n" and m: "m = nat (n - 1 + 1)"
    by simp_all
  have "[0..n] = [0..n - 1] @ [n]"
    using n by (rule upto_rec2)
  then show ?case
    using n Suc.hyps(1) [OF m] by (subst rings.simps) simp
qed

lemma ellipse_count_rings: "ellipse_count (rings s n) = nat (n + 1)"
proof (induction "nat (n + 1)" arbitrary: n)
  case 0
  then have "n < 0" by simp
  then show ?case
    by (subst rings.simps) (simp add: ellipse_count_def)
next
  case (Suc m)
  then have n: "0 \<le> n" and m: "m = nat (n - 1 + 1)"
    by simp_all
  have "ellipse_count (rings s n) = Suc (ellipse_count (rings s (n - 1)))"
    using n by (subst rings.simps) (simp add: ellipse_count_def)
  then show ?case
    using Suc.hyps(1) [OF m] n by simp
qed

text \<open>The background pass is part of every frame that \<^verbatim>\<open>draw\<close> completes.\<close>

lemma draw_rings:
  assumes "draw noise e s = Ok (ops, s')"
  shows "\<exists>pre post. ops = pre @ rings s (numCircles s) @ post"
proof -
  obtain aops arcs' where a: "arcs_tick (arcs s) = Inr (aops, arcs')"
    using assms unfolding draw_def by (cases "arcs_tick (arcs s)") auto
  obtain pops s'' where p: "planets_tick e 0 (s\<lparr>arcs := arcs'\<rparr>) = Ok (pops, s'')"
    using assms by (cases "planets_tick e 0 (s\<lparr>arcs := arcs'\<rparr>)") (auto simp: draw_def a)
  let ?zoom = "if mouseDown e
               then [Translate (jdiv (Fin (width e)) (Fin 2)) (jdiv (Fin (height e)) (Fin 2)),
                     Scale zoomScale,
                     Translate (jneg (Fin (mouseX e))) (jneg (Fin (mouseY e)))]
               else []"
  let ?pre = "[Background (Fin 0)] @ ?zoom
              @ [Push, Translate (jdiv (Fin (width e)) (Fin 2)) (jdiv (Fin (height e)) (Fin 2)),
                 NoStroke]"
  let ?post = "pushPop ([Translate (jdiv (jneg (Fin (width e))) (Fin 2))
                           (jdiv (jneg (Fin (height e))) (Fin 2)), BlendMode ADD]
                        @ concat (map (star_ops noise e) (stars s)))
               @ [NoFill, StrokeWeight (arcSize s)] @ aops @ pops @ [Pop]"
  have "ops = ?pre @ rings s (numCircles s) @ ?post"
    using assms by (simp add: draw_def a p pushPop_def)
  then show ?thesis by blast
qed

text \<open>
  C6 says that the background pass draws exactly \<^verbatim>\<open>numCircles\<close> rings. The loop runs from
  \<^verbatim>\<open>numCircles\<close> down to 0 inclusive: with the 70 rings of \<open>demo_globals\<close> it makes 71
  \<^verbatim>\<open>ellipse\<close> calls.
\<close>

theorem rings_count_counterexample:
  "ellipse_count (rings demo_globals (numCircles demo_globals)) \<noteq> nat (numCircles demo_globals)"
  by (simp add: ellipse_count_rings) (simp add: demo_globals_eq)

text \<open>
  C6 as amended: the background pass is one \<^verbatim>\<open>fill\<close> and one \<^verbatim>\<open>ellipse\<close> for each index from
  \<^verbatim>\<open>numCircles\<close> down to 0, outermost first, \<^verbatim>\<open>numCircles + 1\<close> ellipses in all; at index
  \<open>i\<close> the fill is the palette colour at progress \<^verbatim>\<open>(i/numCircles)*.9\<close> and the diameter is
  \<^verbatim>\<open>i*arcSize*2\<close>, so the last ellipse, at index 0, has no extent.
\<close>

theorem rings_inclusive:
  "rings s (numCircles s) =
     concat (map (\<lambda>i. [Fill (colorMap s (jmul (jdiv (Fin (of_int i)) (Fin (of_int (numCircles s))))
                                        (Fin (9 / 10))) (Fin 0)),
                         Ellipse3 (Fin 0) (Fin 0) (jmul (jmul (Fin (of_int i)) (arcSize s)) (Fin 2))])
               (rev [0..numCircles s]))
   \<and> ellipse_count (rings s (numCircles s)) = nat (numCircles s + 1)"
  using rings_eq [of s "numCircles s"] ellipse_count_rings [of s "numCircles s"] by blast

subsection \<open>C7: the palette is periodic in the hue shift\<close>

lemma trunc_shift:
  "(x + 1) - of_int (trunc (x + 1)) = x - of_int (trunc x)
   \<or> (x + 1) - of_int (trunc (x + 1)) = x - of_int (trunc x) + 1"
proof -
  consider "0 \<le> x" | "x < - 1" | "x = - 1" | "- 1 < x" "x < 0"
    by linarith
  then show ?thesis
  proof cases
    case 1
    then show ?thesis by (simp add: trunc_def)
  next
    case 2
    then show ?thesis by (simp add: trunc_def)
  next
    case 3
    then show ?thesis by (simp add: trunc_def)
  next
    case 4
    then have "\<lceil>x\<rceil> = 0" "\<lfloor>x + 1\<rfloor> = 0"
      by linarith+
    with 4 show ?thesis by (simp add: trunc_def)
  qed
qed

text \<open>
  C7: for every finite base hue, hue range, progress and shift, the hues that \<^verbatim>\<open>colorMap\<close>
  returns for the shift and for the shift plus 1 are finite and equal modulo 1: they are
  equal, or the second is the first plus 1 (when the sum lies between -1 and 0, where
  \<^verbatim>\<open>%\<close> gives a negative hue for the one and a positive hue for the other).
\<close>

theorem colorMap_shift_period:
  "\<exists>x x'. fst (colorMap (s\<lparr>baseHue := Fin b, hueRange := Fin r\<rparr>) (Fin amt) (Fin hueShift)) = Fin x
         \<and> fst (colorMap (s\<lparr>baseHue := Fin b, hueRange := Fin r\<rparr>) (Fin amt)
                  (jadd (Fin hueShift) (Fin 1))) = Fin x'
         \<and> (x' = x \<or> x' = x + 1)"
  using trunc_shift [of "b + amt * r + hueShift"]
  by (auto simp: colorMap_def add.assoc)

subsection \<open>C8: the number of arcs and of stars\<close>

text \<open>
  C8: for every canvas size and every random sequence, \<^verbatim>\<open>init\<close> returns a scene with exactly
  2000 arcs and exactly 1000 stars.
\<close>

theorem init_counts:
  assumes "valid_rng g"
  shows "\<exists>s g'. init w h g = Inr (s, g') \<and> length (arcs s) = 2000 \<and> length (stars s) = 1000"
  using init_generated [OF assms, of w h] by blast

theorem init_counts_witness:
  "\<exists>s g'. init 800 600 (sconst (1 / 2)) = Inr (s, g')
         \<and> length (arcs s) = 2000 \<and> length (stars s) = 1000"
  by (rule init_counts [OF valid_rng_half])

subsection \<open>C9: the 800 by 600 canvas\<close>

text \<open>
  C9: on a canvas of width 800 and height 600, for every random sequence, \<^verbatim>\<open>init\<close> returns a
  scene with \<^verbatim>\<open>radius\<close> 270 and \<^verbatim>\<open>arcSize\<close> \<^verbatim>\<open>270/numCircles\<close>, in which the stored radius of
  every arc is a finite number in \<open>[0, 270]\<close>.
\<close>

theorem init_800_600:
  assumes "valid_rng g"
  shows "\<exists>s g'. init 800 600 g = Inr (s, g')
          \<and> radius s = Fin 270
          \<and> arcSize s = jdiv (Fin 270) (Fin (of_int (numCircles s)))
          \<and> (\<forall>a \<in> set (arcs s). \<exists>x. o_radius a = Fin x \<and> 0 \<le> x \<and> x \<le> 270)"
proof -
  obtain s g' where s: "init 800 600 g = Inr (s, g')" "70 \<le> numCircles s"
      "radius s = Fin (min 800 600 * (45 / 100))"
      "arcSize s = Fin (min 800 600 * (45 / 100) / real_of_int (numCircles s))"
      "\<forall>a \<in> set (arcs s). arc_ok (numCircles s) (arcSize s) a"
    using init_generated [OF assms, of 800 600] by blast
  have rad: "radius s = Fin 270" and asz: "arcSize s = Fin (270 / real_of_int (numCircles s))"
    using s(3,4) by simp_all
  have nc: "0 < real_of_int (numCircles s)"
    using s(2) by simp
  have asz': "arcSize s = jdiv (Fin 270) (Fin (of_int (numCircles s)))"
    using asz nc by simp
  have bound: "\<forall>a \<in> set (arcs s). \<exists>x. o_radius a = Fin x \<and> 0 \<le> x \<and> x \<le> 270"
  proof
    fix a
    assume "a \<in> set (arcs s)"
    then obtain b where b: "0 \<le> b" "b < numCircles s"
        "o_radius a = jmul (Fin (of_int b)) (arcSize s)"
      using s(5) unfolding arc_ok_def by blast
    let ?q = "270 / real_of_int (numCircles s)"
    have q: "0 \<le> ?q"
      using nc by simp
    have "real_of_int b \<le> real_of_int (numCircles s)"
      using b(2) by simp
    then have "real_of_int b * ?q \<le> real_of_int (numCircles s) * ?q"
      using q by (rule mult_right_mono)
    also have "real_of_int (numCircles s) * ?q = 270"
      using nc by simp
    finally have hi: "real_of_int b * ?q \<le> 270" .
    have lo: "0 \<le> real_of_int b * ?q"
      using b(1) q by (intro mult_nonneg_nonneg) simp_all
    have "o_radius a = Fin (real_of_int b * ?q)"
      unfolding b(3) asz by (rule jmul.simps(1))
    then show "\<exists>x. o_radius a = Fin x \<and> 0 \<le> x \<and> x \<le> 270"
      using lo hi by blast
  qed
  show ?thesis
    using s(1) rad asz' bound by blast
qed

theorem init_800_600_witness:
  "\<exists>s g'. init 800 600 (sconst (1 / 2)) = Inr (s, g')
          \<and> radius s = Fin 270
          \<and> arcSize s = jdiv (Fin 270) (Fin (of_int (numCircles s)))
          \<and> (\<forall>a \<in> set (arcs s). \<exists>x. o_radius a = Fin x \<and> 0 \<le> x \<and> x \<le> 270)"
  by (rule init_800_600 [OF valid_rng_half])

subsection \<open>C10: the frame renderer and the random source\<close>

text \<open>
  C10 says that two calls of \<^verbatim>\<open>draw\<close> on equal scenes, with the same frame counter and the
  same pointer state, make the same calls on the drawing surface, because \<^verbatim>\<open>draw\<close> consults
  no random source. It does on the first tick: p5's \<^verbatim>\<open>noise\<close> has no table yet and fills it
  from \<^verbatim>\<open>Math.random\<close>. On \<open>demo_scene\<close>, the frame drawn when \<^verbatim>\<open>Math.random\<close> returns 0 and
  the frame drawn when it returns 0.5 differ: the star is stroked with brightness 0 in the
  one and 0.328125 in the other.
\<close>

theorem draw_first_tick_counterexample:
  "fst (draw_with_noise None (sconst 0) demo_env demo_scene)
     \<noteq> fst (draw_with_noise None (sconst (1 / 2)) demo_env demo_scene)"
proof
  assume eq: "fst (draw_with_noise None (sconst 0) demo_env demo_scene)
     = fst (draw_with_noise None (sconst (1 / 2)) demo_env demo_scene)"
  have stars: "stars demo_scene = [\<lparr>s_x = Fin 10, s_y = Fin 20, s_size = Fin 3, s_hue = Fin (1 / 5),
                 s_sat = Fin (1 / 2), s_idx = Fin 1000, s_speed = Fin (1 / 20)\<rparr>]"
    by (simp add: demo_scene_def)
  have d: "draw (noise_value (replicate 4096 0)) demo_env demo_scene
           = draw (noise_value (replicate 4096 (1 / 2))) demo_env demo_scene"
    using eq by (simp only: draw_with_noise_None [OF stars] stake_sconst fst_conv)
  obtain ops1 s1 where 1: "draw (noise_value (replicate 4096 0)) demo_env demo_scene = Ok (ops1, s1)"
    using demo_draw_Ok by blast
  then have 2: "draw (noise_value (replicate 4096 (1 / 2))) demo_env demo_scene = Ok (ops1, s1)"
    using d by simp
  have "concat (map (star_ops (noise_value (replicate 4096 0)) demo_env) (stars demo_scene))
        = concat (map (star_ops (noise_value (replicate 4096 (1 / 2))) demo_env) (stars demo_scene))"
    using 1 2 by (rule draw_star_ops) simp
  then show False
    unfolding demo_stars by simp
qed

text \<open>
  C10 as amended: once the noise table exists, \<^verbatim>\<open>draw\<close> consults no random source. Two calls
  on the same scene, with the same frame counter, pointer state, canvas size and table,
  have the same outcome whatever the random source holds, and leave the table and the
  random source as they were. A call that finds no table and draws a star fills the table
  with the next 4096 values of \<^verbatim>\<open>Math.random\<close>.
\<close>

theorem draw_deterministic_given_table:
  "fst (draw_with_noise (Some t) g1 e s) = fst (draw_with_noise (Some t) g2 e s)
   \<and> snd (draw_with_noise (Some t) g1 e s) = (Some t, g1)
   \<and> snd (draw_with_noise None g1 e (s\<lparr>stars := st # sts\<rparr>)) = (Some (stake 4096 g1), sdrop 4096 g1)"
proof -
  have "stars (s\<lparr>stars := st # sts\<rparr>) = st # sts"
    by simp
  then show ?thesis
    by (simp only: draw_with_noise_Some draw_with_noise_None fst_conv snd_conv simp_thms)
qed

end
